theory Spec2Isabelle
  imports Complex_Main "HOL-Library.Word" "HOL-Library.Signed_Division"
begin

unbundle bit_operations_syntax

section \<open>Key bindings\<close>

text \<open>
  \<^verbatim>\<open>SDL_Keycode\<close> is SDL2's \<^verbatim>\<open>Sint32\<close>.  The key codes below carry the values
  that SDL2's header \<^verbatim>\<open>SDL_keycode.h\<close> gives them: a printable key is its ASCII
  code, any other key is its scancode with bit 30 set.
\<close>

type_synonym SDL_Keycode = "32 word"

definition SDLK_SCANCODE_MASK :: SDL_Keycode where
  "SDLK_SCANCODE_MASK = push_bit 30 1"

definition SDLK_1 :: SDL_Keycode where "SDLK_1 = 49"
definition SDLK_2 :: SDL_Keycode where "SDLK_2 = 50"
definition SDLK_5 :: SDL_Keycode where "SDLK_5 = 53"
definition SDLK_6 :: SDL_Keycode where "SDLK_6 = 54"
definition SDLK_a :: SDL_Keycode where "SDLK_a = 97"
definition SDLK_d :: SDL_Keycode where "SDLK_d = 100"
definition SDLK_f :: SDL_Keycode where "SDLK_f = 102"
definition SDLK_g :: SDL_Keycode where "SDLK_g = 103"
definition SDLK_r :: SDL_Keycode where "SDLK_r = 114"
definition SDLK_s :: SDL_Keycode where "SDLK_s = 115"
definition SDLK_RIGHT :: SDL_Keycode where "SDLK_RIGHT = 79 OR SDLK_SCANCODE_MASK"
definition SDLK_LEFT :: SDL_Keycode where "SDLK_LEFT = 80 OR SDLK_SCANCODE_MASK"
definition SDLK_DOWN :: SDL_Keycode where "SDLK_DOWN = 81 OR SDLK_SCANCODE_MASK"
definition SDLK_UP :: SDL_Keycode where "SDLK_UP = 82 OR SDLK_SCANCODE_MASK"
definition SDLK_LCTRL :: SDL_Keycode where "SDLK_LCTRL = 224 OR SDLK_SCANCODE_MASK"
definition SDLK_LALT :: SDL_Keycode where "SDLK_LALT = 226 OR SDLK_SCANCODE_MASK"
definition SDLK_ESCAPE :: SDL_Keycode where "SDLK_ESCAPE = 27"

lemmas SDLK_defs =
  SDLK_SCANCODE_MASK_def SDLK_1_def SDLK_2_def SDLK_5_def SDLK_6_def SDLK_a_def
  SDLK_d_def SDLK_f_def SDLK_g_def SDLK_r_def SDLK_s_def SDLK_RIGHT_def SDLK_LEFT_def
  SDLK_DOWN_def SDLK_UP_def SDLK_LCTRL_def SDLK_LALT_def SDLK_ESCAPE_def

text \<open>The struct \<^verbatim>\<open>KeyMapping\<close>: key code, flag value of the button, label.\<close>

record KeyMapping =
  key :: SDL_Keycode
  "value" :: "8 word"
  label :: string

definition controller1Keys :: "KeyMapping list" where
  "controller1Keys =
    [\<lparr>key = SDLK_LALT, value = 1, label = ''A''\<rparr>,
     \<lparr>key = SDLK_LCTRL, value = 2, label = ''B''\<rparr>,
     \<lparr>key = SDLK_5, value = 4, label = ''Select''\<rparr>,
     \<lparr>key = SDLK_1, value = 8, label = ''Start''\<rparr>,
     \<lparr>key = SDLK_UP, value = 16, label = ''Up''\<rparr>,
     \<lparr>key = SDLK_DOWN, value = 32, label = ''Down''\<rparr>,
     \<lparr>key = SDLK_LEFT, value = 64, label = ''Left''\<rparr>,
     \<lparr>key = SDLK_RIGHT, value = 128, label = ''Right''\<rparr>]"

text \<open>
  The second binding table differs between the two listings of \<^verbatim>\<open>main.c\<close>.  The
  earlier listing (controller test only) binds Select and Start of controller 2 to the
  keys 5 and 1, which controller 1 uses too; the later listing (controller and audio
  test) binds them to 6 and 2.
\<close>

definition controller2Keys_v1 :: "KeyMapping list" where
  "controller2Keys_v1 =
    [\<lparr>key = SDLK_s, value = 1, label = ''A''\<rparr>,
     \<lparr>key = SDLK_a, value = 2, label = ''B''\<rparr>,
     \<lparr>key = SDLK_5, value = 4, label = ''Select''\<rparr>,
     \<lparr>key = SDLK_1, value = 8, label = ''Start''\<rparr>,
     \<lparr>key = SDLK_r, value = 16, label = ''Up''\<rparr>,
     \<lparr>key = SDLK_f, value = 32, label = ''Down''\<rparr>,
     \<lparr>key = SDLK_d, value = 64, label = ''Left''\<rparr>,
     \<lparr>key = SDLK_g, value = 128, label = ''Right''\<rparr>]"

definition controller2Keys :: "KeyMapping list" where
  "controller2Keys =
    [\<lparr>key = SDLK_s, value = 1, label = ''A''\<rparr>,
     \<lparr>key = SDLK_a, value = 2, label = ''B''\<rparr>,
     \<lparr>key = SDLK_6, value = 4, label = ''Select''\<rparr>,
     \<lparr>key = SDLK_2, value = 8, label = ''Start''\<rparr>,
     \<lparr>key = SDLK_r, value = 16, label = ''Up''\<rparr>,
     \<lparr>key = SDLK_f, value = 32, label = ''Down''\<rparr>,
     \<lparr>key = SDLK_d, value = 64, label = ''Left''\<rparr>,
     \<lparr>key = SDLK_g, value = 128, label = ''Right''\<rparr>]"

definition NUM_KEYS :: nat where
  "NUM_KEYS = 8"

section \<open>Input state encoder\<close>

text \<open>
  The globals \<^verbatim>\<open>keyState1\<close> and \<^verbatim>\<open>keyState2\<close>, both \<^verbatim>\<open>bool[NUM_KEYS]\<close> and
  initialised to all false.
\<close>

record key_states =
  keyState1 :: "bool list"
  keyState2 :: "bool list"

definition init_key_states :: key_states where
  "init_key_states =
    \<lparr>keyState1 = replicate NUM_KEYS False, keyState2 = replicate NUM_KEYS False\<rparr>"

text \<open>
  One iteration of the loop of \<^verbatim>\<open>setKeyState\<close> at index \<open>i\<close>: two independent
  tests, one store each.  The binding tables are the globals of the listing at hand and
  are passed as \<open>c1\<close> and \<open>c2\<close>.
\<close>

definition setKeyState_body ::
  "KeyMapping list \<Rightarrow> KeyMapping list \<Rightarrow> SDL_Keycode \<Rightarrow> bool \<Rightarrow> nat \<Rightarrow> key_states \<Rightarrow> key_states"
where
  "setKeyState_body c1 c2 code pressed i st =
    (let st1 = (if key (c1 ! i) = code
                then st\<lparr>keyState1 := (keyState1 st)[i := pressed]\<rparr> else st)
     in (if key (c2 ! i) = code
         then st1\<lparr>keyState2 := (keyState2 st1)[i := pressed]\<rparr> else st1))"

definition setKeyState ::
  "KeyMapping list \<Rightarrow> KeyMapping list \<Rightarrow> SDL_Keycode \<Rightarrow> bool \<Rightarrow> key_states \<Rightarrow> key_states"
where
  "setKeyState c1 c2 code pressed st =
    fold (setKeyState_body c1 c2 code pressed) [0..<NUM_KEYS] st"

text \<open>
  \<^verbatim>\<open>getControllerState\<close>: \<^verbatim>\<open>state\<close> starts at 0 and, for \<open>i\<close> from 0 to
  \<open>NUM_KEYS - 1\<close>, takes \<^verbatim>\<open>state |= keyMap[i].value\<close> when \<^verbatim>\<open>keyState[i]\<close> holds.
\<close>

definition getControllerState_body :: "bool list \<Rightarrow> KeyMapping list \<Rightarrow> nat \<Rightarrow> 8 word \<Rightarrow> 8 word" where
  "getControllerState_body keyState keyMap i state =
    (if keyState ! i then state OR value (keyMap ! i) else state)"

definition getControllerState :: "bool list \<Rightarrow> KeyMapping list \<Rightarrow> 8 word" where
  "getControllerState keyState keyMap =
    fold (getControllerState_body keyState keyMap) [0..<NUM_KEYS] 0"

text \<open>
  The same function with the memory it can reach made explicit: the two arrays behind
  its pointer arguments and its local \<^verbatim>\<open>state\<close>.  Each executed statement maps a frame to
  a frame; the result of the call is the final value of \<^verbatim>\<open>state\<close>, and what the call
  leaves in the arrays of the caller is what the final frame holds.
\<close>

record getControllerState_frame =
  frame_keyState :: "bool list"
  frame_keyMap :: "KeyMapping list"
  frame_state :: "8 word"

text \<open>The loop body \<^verbatim>\<open>if (keyState[i]) { state |= keyMap[i].value; }\<close>.\<close>

definition getControllerState_stmt ::
  "nat \<Rightarrow> getControllerState_frame \<Rightarrow> getControllerState_frame"
where
  "getControllerState_stmt i fr =
    (if frame_keyState fr ! i
     then fr\<lparr>frame_state := frame_state fr OR value (frame_keyMap fr ! i)\<rparr>
     else fr)"

definition getControllerState_call ::
  "bool list \<Rightarrow> KeyMapping list \<Rightarrow> getControllerState_frame"
where
  "getControllerState_call keyState keyMap =
    fold getControllerState_stmt [0..<NUM_KEYS]
      \<lparr>frame_keyState = keyState, frame_keyMap = keyMap, frame_state = 0\<rparr>"

section \<open>Square-wave synthesizer\<close>

text \<open>
  The later listing adds the audio callback.  C's \<^verbatim>\<open>int\<close> and \<^verbatim>\<open>uint32_t\<close> are 32-bit
  words, \<^verbatim>\<open>int16_t\<close> is a 16-bit word, and signed operations read a word through
  \<open>sint\<close>.  In this section the type \<^verbatim>\<open>double\<close> is idealised to \<open>real\<close> and \<^verbatim>\<open>pow\<close> to
  \<open>powr\<close>: the arithmetic on the phase and the frequency is exact.  The section after
  it gives the same code over an arbitrary arithmetic of \<^verbatim>\<open>double\<close>, of which the exact
  one and IEEE 754 binary64 are instances.
\<close>

type_synonym c_int = "32 word"

definition SAMPLE_RATE :: c_int where
  "SAMPLE_RATE = 44100"

definition BASE_FREQUENCY :: c_int where
  "BASE_FREQUENCY = 440"

definition MAX_SEMITONE_STEPS :: c_int where
  "MAX_SEMITONE_STEPS = 16"

definition AMPLITUDE :: c_int where
  "AMPLITUDE = 28000"

text \<open>C's \<^verbatim>\<open>/\<close> and \<^verbatim>\<open>%\<close> on \<^verbatim>\<open>int\<close> truncate towards zero.\<close>

definition c_div :: "c_int \<Rightarrow> c_int \<Rightarrow> c_int" where
  "c_div a b = word_of_int (sint a sdiv sint b)"

definition c_mod :: "c_int \<Rightarrow> c_int \<Rightarrow> c_int" where
  "c_mod a b = word_of_int (sint a smod sint b)"

text \<open>
  The static variables of the audio control, all initialised to zero; \<open>'d\<close> is the type
  of the values of \<^verbatim>\<open>double\<close>.
\<close>

record 'd synth_state =
  phase :: 'd
  waveTimer :: "32 word"
  volumeLevel :: c_int
  semitoneStep :: c_int

definition init_synth_state :: "real synth_state" where
  "init_synth_state = \<lparr>phase = 0, waveTimer = 0, volumeLevel = 0, semitoneStep = 0\<rparr>"

text \<open>
  \<^verbatim>\<open>int numSamples = len / sizeof(int16_t)\<close>: \<^verbatim>\<open>len\<close> is converted to \<^verbatim>\<open>size_t\<close>
  (64 bits on the Debian targets of the project), divided by 2 and converted back to
  \<^verbatim>\<open>int\<close>.  For \<open>len \<ge> 0\<close> this is \<open>len div 2\<close>.
\<close>

definition numSamples_of :: "c_int \<Rightarrow> c_int" where
  "numSamples_of len = ucast ((scast len :: 64 word) div 2)"

text \<open>
  \<^verbatim>\<open>double frequency = BASE_FREQUENCY * pow(2.0, semitoneStep / 12.0)\<close> and
  \<^verbatim>\<open>double phaseInc = frequency / SAMPLE_RATE\<close>.
\<close>

definition frequency :: "c_int \<Rightarrow> real" where
  "frequency step =
    real_of_int (sint BASE_FREQUENCY) * (2 powr (real_of_int (sint step) / 12))"

definition phaseInc :: "c_int \<Rightarrow> real" where
  "phaseInc step = frequency step / real_of_int (sint SAMPLE_RATE)"

text \<open>
  \<^verbatim>\<open>int16_t scaledAmplitude = (AMPLITUDE * volumeLevel) / (MAX_SEMITONE_STEPS - 1)\<close>:
  computed in \<^verbatim>\<open>int\<close>, then narrowed to 16 bits.
\<close>

definition scaledAmplitude :: "c_int \<Rightarrow> 16 word" where
  "scaledAmplitude vol = ucast (c_div (AMPLITUDE * vol) (MAX_SEMITONE_STEPS - 1))"

text \<open>
  The value stored in \<^verbatim>\<open>buffer[i]\<close>: \<^verbatim>\<open>phase < 0.5 ? scaledAmplitude : -scaledAmplitude\<close>.
  The negation is taken after promotion to \<^verbatim>\<open>int\<close> and the result is narrowed to
  \<^verbatim>\<open>int16_t\<close> by the store.
\<close>

definition sample_value :: "real \<Rightarrow> 16 word \<Rightarrow> 16 word" where
  "sample_value ph amp = (if ph < 1 / 2 then amp else ucast (- (scast amp :: c_int)))"

text \<open>
  The phase update of one sample: \<^verbatim>\<open>phase += phaseInc; if (phase >= 1.0) phase -= 1.0;\<close>
\<close>

definition phase_step :: "real \<Rightarrow> real \<Rightarrow> real" where
  "phase_step inc ph = (let ph1 = ph + inc in if ph1 \<ge> 1 then ph1 - 1 else ph1)"

text \<open>
  The sample loop \<^verbatim>\<open>for (int i = 0; i < numSamples; ++i)\<close>, from the counter value \<open>i\<close>
  on.  The counter never exceeds \<open>numSamples\<close>, so it does not overflow and is an
  \<open>int\<close> here.  \<open>buffer\<close> is the stream seen as an array of \<^verbatim>\<open>int16_t\<close>.
\<close>

function squareWaveCallback_loop ::
  "int \<Rightarrow> int \<Rightarrow> real \<Rightarrow> 16 word \<Rightarrow> 16 word list \<times> real \<Rightarrow> 16 word list \<times> real"
where
  "squareWaveCallback_loop i numSamples inc amp (buffer, ph) =
    (if i < numSamples
     then squareWaveCallback_loop (i + 1) numSamples inc amp
            (buffer[nat i := sample_value ph amp], phase_step inc ph)
     else (buffer, ph))"
  by pat_completeness auto
termination
  by (relation "measure (\<lambda>(i, numSamples, _). nat (numSamples - i))") auto

text \<open>
  \<^verbatim>\<open>squareWaveCallback(userdata, stream, len)\<close>: frequency and amplitude are computed
  once from the step counters, the loop fills the buffer and advances the phase, then
  \<^verbatim>\<open>waveTimer\<close> and both step counters are updated.  The result is the buffer and the
  new values of the static variables.
\<close>

definition squareWaveCallback ::
  "16 word list \<Rightarrow> c_int \<Rightarrow> real synth_state \<Rightarrow> 16 word list \<times> real synth_state"
where
  "squareWaveCallback stream len st =
    (let numSamples = numSamples_of len;
         inc = phaseInc (semitoneStep st);
         amp = scaledAmplitude (volumeLevel st);
         (buffer, ph) = squareWaveCallback_loop 0 (sint numSamples) inc amp (stream, phase st)
     in (buffer,
         st\<lparr>phase := ph,
            waveTimer := waveTimer st + numSamples,
            semitoneStep := c_mod (semitoneStep st + 1) MAX_SEMITONE_STEPS,
            volumeLevel := c_mod (volumeLevel st + 1) MAX_SEMITONE_STEPS\<rparr>))"

text \<open>
  The static variables after a sequence of callback invocations, each with the stream
  and the byte count that the audio backend passes, starting from the initial values.
\<close>

definition after_callbacks :: "(16 word list \<times> c_int) list \<Rightarrow> real synth_state" where
  "after_callbacks calls =
    fold (\<lambda>(stream, len) st. snd (squareWaveCallback stream len st)) calls init_synth_state"

section \<open>The synthesizer over an arbitrary arithmetic of double\<close>

text \<open>
  The type \<^verbatim>\<open>double\<close>, its operators and \<^verbatim>\<open>pow\<close> belong to the platform, not to the
  program.  An \<open>'d arith\<close> collects what \<^verbatim>\<open>squareWaveCallback\<close> uses of them: literals,
  the conversion from \<^verbatim>\<open>int\<close>, the four operators, \<^verbatim>\<open>pow\<close>, and the comparisons
  \<^verbatim>\<open><\<close> and \<^verbatim>\<open>>=\<close>.
\<close>

record 'd arith =
  fp_lit :: "real \<Rightarrow> 'd"
  fp_of_int :: "int \<Rightarrow> 'd"
  fp_add :: "'d \<Rightarrow> 'd \<Rightarrow> 'd"
  fp_sub :: "'d \<Rightarrow> 'd \<Rightarrow> 'd"
  fp_mul :: "'d \<Rightarrow> 'd \<Rightarrow> 'd"
  fp_div :: "'d \<Rightarrow> 'd \<Rightarrow> 'd"
  fp_pow :: "'d \<Rightarrow> 'd \<Rightarrow> 'd"
  fp_lt :: "'d \<Rightarrow> 'd \<Rightarrow> bool"
  fp_ge :: "'d \<Rightarrow> 'd \<Rightarrow> bool"

text \<open>The static variables at program start: \<^verbatim>\<open>phase = 0.0\<close>, the others 0.\<close>

definition init_synth_state_fp :: "'d arith \<Rightarrow> 'd synth_state" where
  "init_synth_state_fp ar =
    \<lparr>phase = fp_lit ar 0, waveTimer = 0, volumeLevel = 0, semitoneStep = 0\<rparr>"

text \<open>
  \<^verbatim>\<open>BASE_FREQUENCY * pow(2.0, semitoneStep / 12.0)\<close>: \<^verbatim>\<open>semitoneStep\<close> and
  \<^verbatim>\<open>BASE_FREQUENCY\<close> are converted to \<^verbatim>\<open>double\<close>; then \<^verbatim>\<open>frequency / SAMPLE_RATE\<close>
  with \<^verbatim>\<open>SAMPLE_RATE\<close> converted.
\<close>

definition frequency_fp :: "'d arith \<Rightarrow> c_int \<Rightarrow> 'd" where
  "frequency_fp ar step =
    fp_mul ar (fp_of_int ar (sint BASE_FREQUENCY))
      (fp_pow ar (fp_lit ar 2) (fp_div ar (fp_of_int ar (sint step)) (fp_lit ar 12)))"

definition phaseInc_fp :: "'d arith \<Rightarrow> c_int \<Rightarrow> 'd" where
  "phaseInc_fp ar step = fp_div ar (frequency_fp ar step) (fp_of_int ar (sint SAMPLE_RATE))"

text \<open>\<^verbatim>\<open>phase < 0.5 ? scaledAmplitude : -scaledAmplitude\<close>, narrowed by the store.\<close>

definition sample_value_fp :: "'d arith \<Rightarrow> 'd \<Rightarrow> 16 word \<Rightarrow> 16 word" where
  "sample_value_fp ar ph amp =
    (if fp_lt ar ph (fp_lit ar (1 / 2)) then amp else ucast (- (scast amp :: c_int)))"

text \<open>\<^verbatim>\<open>phase += phaseInc; if (phase >= 1.0) phase -= 1.0;\<close>\<close>

definition phase_step_fp :: "'d arith \<Rightarrow> 'd \<Rightarrow> 'd \<Rightarrow> 'd" where
  "phase_step_fp ar inc ph =
    (let ph1 = fp_add ar ph inc
     in if fp_ge ar ph1 (fp_lit ar 1) then fp_sub ar ph1 (fp_lit ar 1) else ph1)"

text \<open>The sample loop, from the counter value \<open>i\<close> on.\<close>

function squareWaveCallback_loop_fp ::
  "'d arith \<Rightarrow> int \<Rightarrow> int \<Rightarrow> 'd \<Rightarrow> 16 word \<Rightarrow> 16 word list \<times> 'd \<Rightarrow> 16 word list \<times> 'd"
where
  "squareWaveCallback_loop_fp ar i numSamples inc amp (buffer, ph) =
    (if i < numSamples
     then squareWaveCallback_loop_fp ar (i + 1) numSamples inc amp
            (buffer[nat i := sample_value_fp ar ph amp], phase_step_fp ar inc ph)
     else (buffer, ph))"
  by pat_completeness auto
termination
  by (relation "measure (\<lambda>(ar, i, numSamples, _). nat (numSamples - i))") auto

text \<open>The callback: the buffer it leaves and the new values of the static variables.\<close>

definition squareWaveCallback_fp ::
  "'d arith \<Rightarrow> 16 word list \<Rightarrow> c_int \<Rightarrow> 'd synth_state \<Rightarrow> 16 word list \<times> 'd synth_state"
where
  "squareWaveCallback_fp ar stream len st =
    (let numSamples = numSamples_of len;
         inc = phaseInc_fp ar (semitoneStep st);
         amp = scaledAmplitude (volumeLevel st);
         (buffer, ph) =
           squareWaveCallback_loop_fp ar 0 (sint numSamples) inc amp (stream, phase st)
     in (buffer,
         st\<lparr>phase := ph,
            waveTimer := waveTimer st + numSamples,
            semitoneStep := c_mod (semitoneStep st + 1) MAX_SEMITONE_STEPS,
            volumeLevel := c_mod (volumeLevel st + 1) MAX_SEMITONE_STEPS\<rparr>))"

definition after_callbacks_fp ::
  "'d arith \<Rightarrow> (16 word list \<times> c_int) list \<Rightarrow> 'd synth_state"
where
  "after_callbacks_fp ar calls =
    fold (\<lambda>(stream, len) st. snd (squareWaveCallback_fp ar stream len st)) calls
      (init_synth_state_fp ar)"

text \<open>The exact arithmetic of the previous section.\<close>

definition exact_arith :: "real arith" where
  "exact_arith =
    \<lparr>fp_lit = (\<lambda>r. r), fp_of_int = real_of_int,
     fp_add = (+), fp_sub = (-), fp_mul = (*), fp_div = (/), fp_pow = (powr),
     fp_lt = (<), fp_ge = (\<ge>)\<rparr>"

section \<open>IEEE 754 binary64\<close>

text \<open>
  A value of \<^verbatim>\<open>double\<close> is a finite number, an infinity or a NaN.  Zero carries no
  sign here: the program never divides by a zero, and nothing else it does tells -0
  from +0.  Each operator returns the exact result rounded to nearest, ties to even,
  with 53 bits of precision, a least exponent of \<open>-1074\<close> for the last place, and
  overflow to infinity from \<open>2^1024\<close> on.
\<close>

datatype double = Finite real | PosInf | NegInf | NaN

text \<open>The number of binary digits of a positive integer.\<close>

function bit_length :: "int \<Rightarrow> nat" where
  "bit_length n = (if n \<le> 0 then 0 else Suc (bit_length (n div 2)))"
  by pat_completeness auto
termination
  by (relation "measure nat") auto

declare bit_length.simps [simp del]

text \<open>The integer part of the binary logarithm of \<open>a > 0\<close>.\<close>

definition ilog2 :: "real \<Rightarrow> int" where
  "ilog2 a =
    (if 1 \<le> a then int (bit_length \<lfloor>a\<rfloor>) - 1
     else - int (bit_length (\<lceil>1 / a\<rceil> - 1)))"

definition pow2 :: "int \<Rightarrow> real" where
  "pow2 q = (if 0 \<le> q then 2 ^ nat q else 1 / 2 ^ nat (- q))"

definition round_half_even :: "real \<Rightarrow> int" where
  "round_half_even s =
    (let f = \<lfloor>s\<rfloor>; r = s - of_int f
     in if r < 1 / 2 then f else if 1 / 2 < r then f + 1
        else if even f then f else f + 1)"

definition round_double :: "real \<Rightarrow> double" where
  "round_double x =
    (if x = 0 then Finite 0
     else let q = max (ilog2 \<bar>x\<bar> - 52) (- 1074);
              m = round_half_even (\<bar>x\<bar> / pow2 q);
              v = of_int m * pow2 q
          in if pow2 1024 \<le> v then (if 0 < x then PosInf else NegInf)
             else Finite (sgn x * v))"

fun d_neg :: "double \<Rightarrow> double" where
  "d_neg (Finite a) = Finite (- a)"
| "d_neg PosInf = NegInf"
| "d_neg NegInf = PosInf"
| "d_neg NaN = NaN"

fun d_add :: "double \<Rightarrow> double \<Rightarrow> double" where
  "d_add NaN y = NaN"
| "d_add x NaN = NaN"
| "d_add (Finite a) (Finite b) = round_double (a + b)"
| "d_add PosInf NegInf = NaN"
| "d_add NegInf PosInf = NaN"
| "d_add PosInf y = PosInf"
| "d_add NegInf y = NegInf"
| "d_add (Finite a) y = y"

definition d_sub :: "double \<Rightarrow> double \<Rightarrow> double" where
  "d_sub x y = d_add x (d_neg y)"

text \<open>The sign of a value other than NaN, with zero counted as positive.\<close>

fun d_negative :: "double \<Rightarrow> bool" where
  "d_negative (Finite a) = (a < 0)"
| "d_negative NegInf = True"
| "d_negative x = False"

fun d_mul :: "double \<Rightarrow> double \<Rightarrow> double" where
  "d_mul NaN y = NaN"
| "d_mul x NaN = NaN"
| "d_mul (Finite a) (Finite b) = round_double (a * b)"
| "d_mul x y =
    (if x = Finite 0 \<or> y = Finite 0 then NaN
     else if d_negative x = d_negative y then PosInf else NegInf)"

fun d_div :: "double \<Rightarrow> double \<Rightarrow> double" where
  "d_div NaN y = NaN"
| "d_div x NaN = NaN"
| "d_div (Finite a) (Finite b) =
    (if b = 0 then (if a = 0 then NaN else if 0 < a then PosInf else NegInf)
     else round_double (a / b))"
| "d_div (Finite a) y = Finite 0"
| "d_div x (Finite b) = (if d_negative x = (b < 0) then PosInf else NegInf)"
| "d_div x y = NaN"

fun d_lt :: "double \<Rightarrow> double \<Rightarrow> bool" where
  "d_lt NaN y = False"
| "d_lt x NaN = False"
| "d_lt (Finite a) (Finite b) = (a < b)"
| "d_lt x NegInf = False"
| "d_lt PosInf y = False"
| "d_lt x y = True"

definition d_ge :: "double \<Rightarrow> double \<Rightarrow> bool" where
  "d_ge x y = (x \<noteq> NaN \<and> y \<noteq> NaN \<and> \<not> d_lt x y)"

text \<open>
  \<^verbatim>\<open>pow\<close> comes from the C library.  Here it is the correctly rounded power for a
  positive finite base and a finite exponent, which is all the program asks of it (base
  2.0, exponent \<^verbatim>\<open>semitoneStep / 12.0\<close>).  A library's \<^verbatim>\<open>pow\<close> agrees with it where the
  power is a value of \<^verbatim>\<open>double\<close>, as for the exponents 0 and 1, and may differ in the
  last place elsewhere.
\<close>

fun d_pow :: "double \<Rightarrow> double \<Rightarrow> double" where
  "d_pow (Finite a) (Finite b) = (if 0 < a then round_double (a powr b) else NaN)"
| "d_pow x y = NaN"

definition binary64 :: "double arith" where
  "binary64 =
    \<lparr>fp_lit = round_double, fp_of_int = (\<lambda>k. round_double (real_of_int k)),
     fp_add = d_add, fp_sub = d_sub, fp_mul = d_mul, fp_div = d_div, fp_pow = d_pow,
     fp_lt = d_lt, fp_ge = d_ge\<rparr>"

text \<open>
  Rounding on a grid.  The values of \<^verbatim>\<open>double\<close> below 2 that the phase takes are multiples
  of \<open>2^-64\<close>.  For a non-negative integer \<open>M\<close>, \<open>round_grid M\<close> is \<open>M\<close> rounded to 53
  significant binary digits, ties to even, so that \<open>round_grid M / 2^64\<close> is
  \<open>M / 2^64\<close> rounded to binary64; \<open>grid_step\<close> is the phase update on such multiples
  and \<open>grid_run\<close> repeats it while the phase stays in \<open>[0, 1)\<close>.
\<close>

definition grid_unit :: "int \<Rightarrow> int" where
  "grid_unit M = 2 ^ (bit_length M - 53)"

definition round_grid :: "int \<Rightarrow> int" where
  "round_grid M =
    (let d = grid_unit M; q = M div d; r = M mod d
     in (if 2 * r < d then q else if d < 2 * r then q + 1
         else if even q then q else q + 1) * d)"

definition grid_step :: "int \<Rightarrow> int \<Rightarrow> int" where
  "grid_step c M =
    (let M1 = round_grid (M + c)
     in if 2 ^ 64 \<le> M1 then round_grid (M1 - 2 ^ 64) else M1)"

fun grid_run :: "int \<Rightarrow> nat \<Rightarrow> int \<Rightarrow> int option" where
  "grid_run c 0 M = Some M"
| "grid_run c (Suc n) M =
    (if 0 \<le> M \<and> M < 2 ^ 64 then grid_run c n (grid_step c M) else None)"

section \<open>Properties of the input state encoder\<close>

subsection \<open>The register is the union of the pressed flags\<close>

lemma upt_NUM_KEYS: "[0..<NUM_KEYS] = [0, 1, 2, 3, 4, 5, 6, 7]"
  by (simp add: NUM_KEYS_def upt_rec)

lemma getControllerState_loop_bit:
  "bit (fold (getControllerState_body ks km) [0..<n] s) b \<longleftrightarrow>
     bit s b \<or> (\<exists>i<n. ks ! i \<and> bit (value (km ! i)) b)"
proof (induction n)
  case 0
  show ?case by simp
next
  case (Suc n)
  let ?acc = "fold (getControllerState_body ks km) [0..<n] s"
  have "bit (fold (getControllerState_body ks km) [0..<Suc n] s) b
      \<longleftrightarrow> bit ?acc b \<or> (ks ! n \<and> bit (value (km ! n)) b)"
    by (simp add: getControllerState_body_def bit_or_iff)
  also have "\<dots> \<longleftrightarrow> bit s b \<or> (\<exists>i<Suc n. ks ! i \<and> bit (value (km ! i)) b)"
    unfolding Suc.IH less_Suc_eq by blast
  finally show ?case .
qed

lemma getControllerState_bit:
  "bit (getControllerState ks km) b \<longleftrightarrow>
     (\<exists>i<NUM_KEYS. ks ! i \<and> bit (value (km ! i)) b)"
  by (simp add: getControllerState_def getControllerState_loop_bit)

lemma bit_foldr_or:
  "bit (foldr (OR) (xs :: 8 word list) s) b \<longleftrightarrow> bit s b \<or> (\<exists>x\<in>set xs. bit x b)"
  by (induction xs) (auto simp: bit_or_iff)

lemma pressed_values_set:
  assumes "length ks = n" and "length km = n"
  shows "set (map value (map snd (filter fst (zip ks km)))) =
           {value (km ! i) | i. i < n \<and> ks ! i}"
  using assms by (auto simp: in_set_zip image_iff) force

lemma getControllerState_or_list:
  assumes "length ks = NUM_KEYS" and "length km = NUM_KEYS"
  shows "getControllerState ks km =
           foldr (OR) (map value (map snd (filter fst (zip ks km)))) 0"
proof (rule bit_eqI)
  fix b
  show "bit (getControllerState ks km) b \<longleftrightarrow>
        bit (foldr (OR) (map value (map snd (filter fst (zip ks km)))) 0) b"
    unfolding getControllerState_bit bit_foldr_or pressed_values_set [OF assms]
    by auto
qed

lemma getControllerState_reorder:
  assumes "distinct p" and "set p = {0..<NUM_KEYS}"
  shows "getControllerState (map ((!) ks) p) (map ((!) km) p) = getControllerState ks km"
proof (rule bit_eqI)
  fix b
  have len: "length p = NUM_KEYS"
    using assms distinct_card [of p] by simp
  have "(\<exists>i<NUM_KEYS. ks ! (p ! i) \<and> bit (value (km ! (p ! i))) b)
      \<longleftrightarrow> (\<exists>j<NUM_KEYS. ks ! j \<and> bit (value (km ! j)) b)" (is "?L \<longleftrightarrow> ?R")
  proof
    assume ?L
    then obtain i where i: "i < NUM_KEYS" "ks ! (p ! i)" "bit (value (km ! (p ! i))) b"
      by blast
    have "p ! i \<in> set p" using i(1) len by simp
    then have "p ! i < NUM_KEYS" using assms(2) by simp
    then show ?R using i by blast
  next
    assume ?R
    then obtain j where j: "j < NUM_KEYS" "ks ! j" "bit (value (km ! j)) b" by blast
    then have "j \<in> set p" using assms(2) by simp
    then obtain i where "i < length p" "p ! i = j" by (auto simp: in_set_conv_nth)
    then show ?L using j len by auto
  qed
  then show "bit (getControllerState (map ((!) ks) p) (map ((!) km) p)) b
      \<longleftrightarrow> bit (getControllerState ks km) b"
    by (simp add: getControllerState_bit len cong: conj_cong)
qed

lemma getControllerState_none_pressed:
  "getControllerState (replicate NUM_KEYS False) km = 0"
  by (rule bit_eqI) (auto simp: getControllerState_bit)

lemma getControllerState_all_pressed:
  assumes "map value km = [1, 2, 4, 8, 16, 32, 64, 128]"
  shows "getControllerState (replicate NUM_KEYS True) km = 255"
proof -
  have "length (map value km) = 8"
    unfolding assms by simp
  then have len: "length km = 8"
    by simp
  have v: "value (km ! i) = [1, 2, 4, 8, 16, 32, 64, 128] ! i" if "i < 8" for i
    using assms that len by (metis nth_map)
  show ?thesis
    by (simp add: getControllerState_def getControllerState_body_def upt_NUM_KEYS
        NUM_KEYS_def v numeral_eq_Suc)
qed

text \<open>
  C1.  For aligned sequences of \<open>NUM_KEYS = 8\<close> key states and bindings,
  \<open>getControllerState\<close> returns the bitwise OR of the flag values of exactly the entries
  whose key state is true, and reordering the buttons (the same permutation applied to
  both sequences) does not change it.  With no key pressed the register is 0; with all
  eight pressed and the flags 1, 2, 4, ..., 128 of the binding tables it is 255; on
  controller 1, Up and A pressed give 17 and A alone gives 1.
\<close>

theorem getControllerState_union_of_pressed:
  assumes "length keyState = NUM_KEYS" and "length keyMap = NUM_KEYS"
  shows
    "getControllerState keyState keyMap =
        foldr (OR) (map value (map snd (filter fst (zip keyState keyMap)))) 0
     \<and> (\<forall>b. bit (getControllerState keyState keyMap) b \<longleftrightarrow>
            (\<exists>i<NUM_KEYS. keyState ! i \<and> bit (value (keyMap ! i)) b))
     \<and> (\<forall>p. distinct p \<and> set p = {0..<NUM_KEYS} \<longrightarrow>
            getControllerState (map ((!) keyState) p) (map ((!) keyMap) p) =
              getControllerState keyState keyMap)
     \<and> getControllerState (replicate NUM_KEYS False) keyMap = 0
     \<and> (map value keyMap = [1, 2, 4, 8, 16, 32, 64, 128] \<longrightarrow>
            getControllerState (replicate NUM_KEYS True) keyMap = 255)
     \<and> getControllerState (replicate NUM_KEYS True) controller1Keys = 255
     \<and> getControllerState (replicate NUM_KEYS True) controller2Keys = 255
     \<and> getControllerState
          [True, False, False, False, True, False, False, False] controller1Keys = 17
     \<and> getControllerState
          [True, False, False, False, False, False, False, False] controller1Keys = 1"
proof (intro conjI allI impI)
  show "getControllerState keyState keyMap =
        foldr (OR) (map value (map snd (filter fst (zip keyState keyMap)))) 0"
    by (rule getControllerState_or_list [OF assms])
  show "bit (getControllerState keyState keyMap) b \<longleftrightarrow>
        (\<exists>i<NUM_KEYS. keyState ! i \<and> bit (value (keyMap ! i)) b)" for b
    by (rule getControllerState_bit)
  show "getControllerState (map ((!) keyState) p) (map ((!) keyMap) p) =
        getControllerState keyState keyMap"
    if "distinct p \<and> set p = {0..<NUM_KEYS}" for p
    using that by (simp add: getControllerState_reorder)
  show "getControllerState (replicate NUM_KEYS False) keyMap = 0"
    by (rule getControllerState_none_pressed)
  show "getControllerState (replicate NUM_KEYS True) keyMap = 255"
    if "map value keyMap = [1, 2, 4, 8, 16, 32, 64, 128]"
    using that by (rule getControllerState_all_pressed)
  show "getControllerState (replicate NUM_KEYS True) controller1Keys = 255"
    by (rule getControllerState_all_pressed) (simp add: controller1Keys_def)
  show "getControllerState (replicate NUM_KEYS True) controller2Keys = 255"
    by (rule getControllerState_all_pressed) (simp add: controller2Keys_def)
  show "getControllerState
          [True, False, False, False, True, False, False, False] controller1Keys = 17"
    by code_simp
  show "getControllerState
          [True, False, False, False, False, False, False, False] controller1Keys = 1"
    by code_simp
qed

theorem getControllerState_union_of_pressed_witness:
  "length [True, False, False, False, True, False, False, False] = NUM_KEYS
   \<and> length controller1Keys = NUM_KEYS
   \<and> distinct [7, 6, 5, 4, 3, 2, 1, 0 :: nat]
   \<and> set [7, 6, 5, 4, 3, 2, 1, 0 :: nat] = {0..<NUM_KEYS}
   \<and> map value controller1Keys = [1, 2, 4, 8, 16, 32, 64, 128]
   \<and> getControllerState [True, False, False, False, True, False, False, False]
        controller1Keys = 16 OR 1
   \<and> bit (getControllerState [True, False, False, False, True, False, False, False]
        controller1Keys) 4
   \<and> getControllerState
        (map ((!) [True, False, False, False, True, False, False, False])
           [7, 6, 5, 4, 3, 2, 1, 0])
        (map ((!) controller1Keys) [7, 6, 5, 4, 3, 2, 1, 0]) = 17
   \<and> getControllerState (replicate NUM_KEYS True) controller1Keys = 255"
proof -
  have l1: "length [True, False, False, False, True, False, False, False] = NUM_KEYS"
    by (simp add: NUM_KEYS_def)
  have l2: "length controller1Keys = NUM_KEYS"
    by (simp add: NUM_KEYS_def controller1Keys_def)
  have p: "distinct [7, 6, 5, 4, 3, 2, 1, 0 :: nat]
           \<and> set [7, 6, 5, 4, 3, 2, 1, 0 :: nat] = {0..<NUM_KEYS}"
    by code_simp
  have v: "map value controller1Keys = [1, 2, 4, 8, 16, 32, 64, 128]"
    by (simp add: controller1Keys_def)
  note main = getControllerState_union_of_pressed [OF l1 l2]
  have or_form: "getControllerState [True, False, False, False, True, False, False, False]
        controller1Keys = 16 OR 1"
    using main by (simp add: controller1Keys_def)
  have bit4: "bit (getControllerState [True, False, False, False, True, False, False, False]
        controller1Keys) 4"
  proof -
    have "\<exists>i<NUM_KEYS. [True, False, False, False, True, False, False, False] ! i
            \<and> bit (value (controller1Keys ! i)) 4"
      by (rule exI [of _ 4]) (simp add: NUM_KEYS_def controller1Keys_def)
    then show ?thesis
      using main by blast
  qed
  have reord: "getControllerState
        (map ((!) [True, False, False, False, True, False, False, False])
           [7, 6, 5, 4, 3, 2, 1, 0])
        (map ((!) controller1Keys) [7, 6, 5, 4, 3, 2, 1, 0]) = 17"
  proof -
    from main have "\<forall>p. distinct p \<and> set p = {0..<NUM_KEYS} \<longrightarrow>
            getControllerState
              (map ((!) [True, False, False, False, True, False, False, False]) p)
              (map ((!) controller1Keys) p) =
            getControllerState [True, False, False, False, True, False, False, False]
              controller1Keys"
      by blast
    then have "getControllerState
        (map ((!) [True, False, False, False, True, False, False, False])
           [7, 6, 5, 4, 3, 2, 1, 0])
        (map ((!) controller1Keys) [7, 6, 5, 4, 3, 2, 1, 0]) =
      getControllerState [True, False, False, False, True, False, False, False]
        controller1Keys"
      using p by blast
    also from main have "\<dots> = 17"
      by blast
    finally show ?thesis .
  qed
  have full: "getControllerState (replicate NUM_KEYS True) controller1Keys = 255"
    using main v by blast
  show ?thesis
    using l1 l2 p v or_form bit4 reord full by (intro conjI) blast+
qed

subsection \<open>Key transitions\<close>

lemma setKeyState_body_length:
  "length (keyState1 (setKeyState_body c1 c2 code pressed i st)) = length (keyState1 st)"
  "length (keyState2 (setKeyState_body c1 c2 code pressed i st)) = length (keyState2 st)"
  by (simp_all add: setKeyState_body_def Let_def)

lemma setKeyState_body_nth1:
  "j < length (keyState1 st) \<Longrightarrow>
   keyState1 (setKeyState_body c1 c2 code pressed i st) ! j =
     (if j = i \<and> key (c1 ! i) = code then pressed else keyState1 st ! j)"
  by (simp add: setKeyState_body_def Let_def nth_list_update)

lemma setKeyState_body_nth2:
  "j < length (keyState2 st) \<Longrightarrow>
   keyState2 (setKeyState_body c1 c2 code pressed i st) ! j =
     (if j = i \<and> key (c2 ! i) = code then pressed else keyState2 st ! j)"
  by (simp add: setKeyState_body_def Let_def nth_list_update)

lemma setKeyState_body_unbound:
  "key (c1 ! i) \<noteq> code \<Longrightarrow> key (c2 ! i) \<noteq> code \<Longrightarrow>
   setKeyState_body c1 c2 code pressed i st = st"
  by (simp add: setKeyState_body_def)

lemma setKeyState_body_keyState2_unbound:
  "key (c2 ! i) \<noteq> code \<Longrightarrow>
   keyState2 (setKeyState_body c1 c2 code pressed i st) = keyState2 st"
  by (simp add: setKeyState_body_def)

lemma setKeyState_loop_length:
  "length (keyState1 (fold (setKeyState_body c1 c2 code pressed) [0..<n] st)) =
     length (keyState1 st)"
  "length (keyState2 (fold (setKeyState_body c1 c2 code pressed) [0..<n] st)) =
     length (keyState2 st)"
  by (induction n) (simp_all add: setKeyState_body_length)

lemma setKeyState_loop_nth1:
  "j < length (keyState1 st) \<Longrightarrow>
   keyState1 (fold (setKeyState_body c1 c2 code pressed) [0..<n] st) ! j =
     (if j < n \<and> key (c1 ! j) = code then pressed else keyState1 st ! j)"
  by (induction n)
     (auto simp: setKeyState_body_nth1 setKeyState_loop_length less_Suc_eq)

lemma setKeyState_loop_nth2:
  "j < length (keyState2 st) \<Longrightarrow>
   keyState2 (fold (setKeyState_body c1 c2 code pressed) [0..<n] st) ! j =
     (if j < n \<and> key (c2 ! j) = code then pressed else keyState2 st ! j)"
  by (induction n)
     (auto simp: setKeyState_body_nth2 setKeyState_loop_length less_Suc_eq)

lemma setKeyState_loop_unbound:
  "\<forall>i<n. key (c1 ! i) \<noteq> code \<and> key (c2 ! i) \<noteq> code \<Longrightarrow>
   fold (setKeyState_body c1 c2 code pressed) [0..<n] st = st"
  by (induction n) (simp_all add: setKeyState_body_unbound)

lemma setKeyState_loop_keyState2_unbound:
  "\<forall>i<n. key (c2 ! i) \<noteq> code \<Longrightarrow>
   keyState2 (fold (setKeyState_body c1 c2 code pressed) [0..<n] st) = keyState2 st"
  by (induction n) (simp_all add: setKeyState_body_keyState2_unbound)

lemma key_in_table: "i < length c \<Longrightarrow> key (c ! i) \<in> key ` set c"
  by simp

text \<open>
  C6.  \<open>setKeyState code pressed\<close> stores \<open>pressed\<close> at index \<open>i\<close> of a controller's
  key states exactly when that controller's binding at index \<open>i\<close> has the key \<open>code\<close>
  (independently for the two controllers, so a key bound in both updates both), leaves
  every other entry as it was, and changes nothing at all for a key that neither table
  binds.  The tables are arbitrary tables of \<open>NUM_KEYS\<close> bindings, which covers the
  tables of both listings.
\<close>

theorem setKeyState_updates_matching_entries:
  assumes "length c1 = NUM_KEYS" and "length c2 = NUM_KEYS"
    and "length (keyState1 st) = NUM_KEYS" and "length (keyState2 st) = NUM_KEYS"
  shows
    "length (keyState1 (setKeyState c1 c2 code pressed st)) = NUM_KEYS
     \<and> length (keyState2 (setKeyState c1 c2 code pressed st)) = NUM_KEYS
     \<and> (\<forall>i<NUM_KEYS. keyState1 (setKeyState c1 c2 code pressed st) ! i =
            (if key (c1 ! i) = code then pressed else keyState1 st ! i))
     \<and> (\<forall>i<NUM_KEYS. keyState2 (setKeyState c1 c2 code pressed st) ! i =
            (if key (c2 ! i) = code then pressed else keyState2 st ! i))
     \<and> (code \<notin> key ` set c1 \<and> code \<notin> key ` set c2 \<longrightarrow>
            setKeyState c1 c2 code pressed st = st)"
proof (intro conjI allI impI)
  show "length (keyState1 (setKeyState c1 c2 code pressed st)) = NUM_KEYS"
    by (simp add: setKeyState_def setKeyState_loop_length assms)
  show "length (keyState2 (setKeyState c1 c2 code pressed st)) = NUM_KEYS"
    by (simp add: setKeyState_def setKeyState_loop_length assms)
  show "keyState1 (setKeyState c1 c2 code pressed st) ! i =
        (if key (c1 ! i) = code then pressed else keyState1 st ! i)"
    if "i < NUM_KEYS" for i
    using that by (simp add: setKeyState_def setKeyState_loop_nth1 assms)
  show "keyState2 (setKeyState c1 c2 code pressed st) ! i =
        (if key (c2 ! i) = code then pressed else keyState2 st ! i)"
    if "i < NUM_KEYS" for i
    using that by (simp add: setKeyState_def setKeyState_loop_nth2 assms)
  show "setKeyState c1 c2 code pressed st = st"
    if unbound: "code \<notin> key ` set c1 \<and> code \<notin> key ` set c2"
  proof -
    have "\<forall>i<NUM_KEYS. key (c1 ! i) \<noteq> code \<and> key (c2 ! i) \<noteq> code"
      using unbound key_in_table [of _ c1] key_in_table [of _ c2] assms(1,2) by metis
    then show ?thesis
      unfolding setKeyState_def by (rule setKeyState_loop_unbound)
  qed
qed

text \<open>
  The witness uses the tables of the earlier listing, where the key 5 is Select on both
  controllers, and the key \<open>g\<close>, bound on controller 2 only; Escape is bound nowhere.
\<close>

theorem setKeyState_updates_matching_entries_witness:
  "length controller1Keys = NUM_KEYS \<and> length controller2Keys_v1 = NUM_KEYS
   \<and> length (keyState1 init_key_states) = NUM_KEYS
   \<and> length (keyState2 init_key_states) = NUM_KEYS
   \<and> (2::nat) < NUM_KEYS
   \<and> keyState1
        (setKeyState controller1Keys controller2Keys_v1 SDLK_5 True init_key_states) ! 2
   \<and> keyState2
        (setKeyState controller1Keys controller2Keys_v1 SDLK_5 True init_key_states) ! 2
   \<and> SDLK_ESCAPE \<notin> key ` set controller1Keys
   \<and> SDLK_ESCAPE \<notin> key ` set controller2Keys_v1
   \<and> setKeyState controller1Keys controller2Keys_v1 SDLK_ESCAPE True init_key_states =
        init_key_states"
proof -
  have l1: "length controller1Keys = NUM_KEYS"
    by (simp add: NUM_KEYS_def controller1Keys_def)
  have l2: "length controller2Keys_v1 = NUM_KEYS"
    by (simp add: NUM_KEYS_def controller2Keys_v1_def)
  have l3: "length (keyState1 init_key_states) = NUM_KEYS"
    by (simp add: init_key_states_def)
  have l4: "length (keyState2 init_key_states) = NUM_KEYS"
    by (simp add: init_key_states_def)
  have i: "(2::nat) < NUM_KEYS"
    by (simp add: NUM_KEYS_def)
  have k1: "key (controller1Keys ! 2) = SDLK_5"
    by (simp add: controller1Keys_def)
  have k2: "key (controller2Keys_v1 ! 2) = SDLK_5"
    by (simp add: controller2Keys_v1_def)
  have e1: "SDLK_ESCAPE \<notin> key ` set controller1Keys"
    by (simp add: controller1Keys_def SDLK_defs)
  have e2: "SDLK_ESCAPE \<notin> key ` set controller2Keys_v1"
    by (simp add: controller2Keys_v1_def SDLK_defs)
  note pressed =
    setKeyState_updates_matching_entries [OF l1 l2 l3 l4, of SDLK_5 True]
  note ignored =
    setKeyState_updates_matching_entries [OF l1 l2 l3 l4, of SDLK_ESCAPE True]
  have a: "keyState1
      (setKeyState controller1Keys controller2Keys_v1 SDLK_5 True init_key_states) ! 2"
    using pressed i k1 by simp
  have b: "keyState2
      (setKeyState controller1Keys controller2Keys_v1 SDLK_5 True init_key_states) ! 2"
    using pressed i k2 by simp
  have c: "setKeyState controller1Keys controller2Keys_v1 SDLK_ESCAPE True init_key_states =
      init_key_states"
    using ignored e1 e2 by blast
  show ?thesis
    using l1 l2 l3 l4 i a b e1 e2 c by (intro conjI)
qed

text \<open>
  C7.  A transition on a key that controller 1 binds and controller 2 does not leaves
  the key states of controller 2 as they were, and with them the register that
  \<open>getControllerState\<close> computes for controller 2.
\<close>

theorem setKeyState_controller1_key_frames_controller2:
  assumes "length c2 = NUM_KEYS"
    and "code \<in> key ` set c1" and "code \<notin> key ` set c2"
  shows
    "keyState2 (setKeyState c1 c2 code pressed st) = keyState2 st
     \<and> getControllerState (keyState2 (setKeyState c1 c2 code pressed st)) c2 =
         getControllerState (keyState2 st) c2"
proof -
  have "\<forall>i<NUM_KEYS. key (c2 ! i) \<noteq> code"
    using assms(1,3) key_in_table [of _ c2] by metis
  then have "keyState2 (setKeyState c1 c2 code pressed st) = keyState2 st"
    unfolding setKeyState_def by (rule setKeyState_loop_keyState2_unbound)
  then show ?thesis
    by simp
qed

theorem setKeyState_controller1_key_frames_controller2_witness:
  "length controller2Keys = NUM_KEYS
   \<and> SDLK_UP \<in> key ` set controller1Keys \<and> SDLK_UP \<notin> key ` set controller2Keys
   \<and> keyState1 (setKeyState controller1Keys controller2Keys SDLK_UP True
        \<lparr>keyState1 = replicate NUM_KEYS False,
         keyState2 = [True, False, False, False, False, False, True, False]\<rparr>) ! 4
   \<and> keyState2 (setKeyState controller1Keys controller2Keys SDLK_UP True
        \<lparr>keyState1 = replicate NUM_KEYS False,
         keyState2 = [True, False, False, False, False, False, True, False]\<rparr>) =
       [True, False, False, False, False, False, True, False]
   \<and> getControllerState (keyState2 (setKeyState controller1Keys controller2Keys SDLK_UP True
        \<lparr>keyState1 = replicate NUM_KEYS False,
         keyState2 = [True, False, False, False, False, False, True, False]\<rparr>))
        controller2Keys = 65"
proof -
  have l2: "length controller2Keys = NUM_KEYS"
    by (simp add: NUM_KEYS_def controller2Keys_def)
  have b1: "SDLK_UP \<in> key ` set controller1Keys"
    by (simp add: controller1Keys_def)
  have b2: "SDLK_UP \<notin> key ` set controller2Keys"
    by (simp add: controller2Keys_def SDLK_defs)
  have pressed: "keyState1 (setKeyState controller1Keys controller2Keys SDLK_UP True
        \<lparr>keyState1 = replicate NUM_KEYS False,
         keyState2 = [True, False, False, False, False, False, True, False]\<rparr>) ! 4"
    by code_simp
  have reg: "getControllerState [True, False, False, False, False, False, True, False]
      controller2Keys = 65"
    by code_simp
  note frame = setKeyState_controller1_key_frames_controller2 [OF l2 b1 b2, of True
      "\<lparr>keyState1 = replicate NUM_KEYS False,
        keyState2 = [True, False, False, False, False, False, True, False]\<rparr>"]
  show ?thesis
    using l2 b1 b2 pressed frame reg by simp
qed

text \<open>
  C8.  In the later listing (controller and audio test) the two binding tables hold 16
  pairwise distinct keys and share none.  In the earlier listing (controller test only)
  the keys 5 and 1 are bound on both controllers, so its tables hold 14 distinct keys.
\<close>

theorem binding_tables_distinct_keys:
  "length (map key (controller1Keys @ controller2Keys)) = 16
   \<and> distinct (map key (controller1Keys @ controller2Keys))
   \<and> set (map key controller1Keys) \<inter> set (map key controller2Keys) = {}
   \<and> set (map key controller1Keys) \<inter> set (map key controller2Keys_v1) = {SDLK_5, SDLK_1}
   \<and> card (set (map key (controller1Keys @ controller2Keys_v1))) = 14"
  by code_simp

theorem binding_tables_v1_share_keys:
  "\<not> (length (map key (controller1Keys @ controller2Keys_v1)) = 16
      \<and> distinct (map key (controller1Keys @ controller2Keys_v1)))"
  by code_simp

section \<open>Properties of the synthesizer\<close>

subsection \<open>Machine arithmetic\<close>

lemma sint_c_int_of_int:
  assumes "- (2 ^ 31) \<le> k" and "k < 2 ^ 31"
  shows "sint (word_of_int k :: c_int) = k"
  using assms by (simp add: sint_sbintrunc' signed_take_bit_int_eq_self)

lemma sint_c_int_succ:
  fixes s :: c_int
  assumes "sint s < 2147483647"
  shows "sint (s + 1) = sint s + 1"
proof -
  have lo: "- (2 ^ 31) \<le> sint s"
    using sint_ge [of s] by simp
  have "sint (s + 1) = signed_take_bit 31 (sint s + 1)"
    by (simp add: sint_word_ariths)
  also have "\<dots> = sint s + 1"
    by (rule signed_take_bit_int_eq_self) (use lo assms in simp_all)
  finally show ?thesis .
qed

lemma c_mod_succ:
  fixes s :: c_int
  assumes "0 \<le> sint s" and "sint s < 16"
  shows "sint (c_mod (s + 1) MAX_SEMITONE_STEPS) = (sint s + 1) mod 16"
proof -
  have s1: "sint (s + 1) = sint s + 1"
    using assms by (intro sint_c_int_succ) simp
  have "(sint s + 1) smod 16 = (sint s + 1) mod 16"
    using assms by (simp add: smod_int_alt_def sgn_if)
  then have "c_mod (s + 1) MAX_SEMITONE_STEPS = word_of_int ((sint s + 1) mod 16)"
    by (simp add: c_mod_def MAX_SEMITONE_STEPS_def s1)
  moreover have "0 \<le> (sint s + 1) mod 16" and "(sint s + 1) mod 16 < 16"
    by simp_all
  ultimately show ?thesis
    by (simp add: sint_c_int_of_int)
qed

lemma narrow_of_int:
  "(ucast (word_of_int k :: c_int) :: 16 word) = word_of_int k"
  by transfer (simp add: take_bit_take_bit)

lemma narrow_neg:
  "(ucast (- (scast (amp :: 16 word) :: c_int)) :: 16 word) = - amp"
proof -
  have "- (scast amp :: c_int) = word_of_int (- sint amp)"
    by simp
  then have "(ucast (- (scast amp :: c_int)) :: 16 word) =
      ucast (word_of_int (- sint amp) :: c_int)"
    by (simp only:)
  also have "\<dots> = word_of_int (- sint amp)"
    by (rule narrow_of_int)
  also have "\<dots> = - amp"
    by simp
  finally show ?thesis .
qed

lemma scaledAmplitude_in_range:
  assumes "0 \<le> sint vol" and "sint vol < 16"
  shows "sint (scaledAmplitude vol) = (28000 * sint vol) div 15"
proof -
  have prod: "sint (AMPLITUDE * vol) = 28000 * sint vol"
  proof -
    have "sint (AMPLITUDE * vol) = signed_take_bit 31 (28000 * sint vol)"
      by (simp add: sint_word_ariths AMPLITUDE_def)
    also have "\<dots> = 28000 * sint vol"
      by (rule signed_take_bit_int_eq_self) (use assms in simp_all)
    finally show ?thesis .
  qed
  have q: "(28000 * sint vol) sdiv 15 = (28000 * sint vol) div 15"
    using assms by (simp add: signed_divide_int_def sgn_if)
  have qb: "0 \<le> (28000 * sint vol) div 15" "(28000 * sint vol) div 15 < 2 ^ 15"
    using assms by simp_all
  have "scaledAmplitude vol =
      (ucast (word_of_int ((28000 * sint vol) div 15) :: c_int) :: 16 word)"
    by (simp add: scaledAmplitude_def c_div_def prod q MAX_SEMITONE_STEPS_def)
  also have "\<dots> = word_of_int ((28000 * sint vol) div 15)"
    by (rule narrow_of_int)
  finally show ?thesis
    using qb by (simp add: sint_sbintrunc' signed_take_bit_int_eq_self)
qed

lemma uint_size_t_of_int:
  assumes "0 \<le> k" and "k < 2 ^ 64"
  shows "uint (word_of_int k :: 64 word) = k"
  using assms by (simp add: uint_word_of_int take_bit_int_eq_self)

lemma numSamples_of_nonneg:
  assumes "0 \<le> sint len"
  shows "sint (numSamples_of len) = sint len div 2"
proof -
  have hi: "sint len < 2 ^ 31"
    using sint_lt [of len] by simp
  have w: "(scast len :: 64 word) = word_of_int (sint len)"
    by simp
  have u: "uint (word_of_int (sint len) :: 64 word) = sint len"
    using assms hi by (intro uint_size_t_of_int) simp_all
  have "uint ((scast len :: 64 word) div 2) = sint len div 2"
    unfolding w uint_div u by simp
  then have "word_of_int (uint ((scast len :: 64 word) div 2)) =
      (word_of_int (sint len div 2) :: c_int)"
    by (simp only:)
  then have "numSamples_of len = word_of_int (sint len div 2)"
    unfolding numSamples_of_def by simp
  moreover have "0 \<le> sint len div 2" and "sint len div 2 < 2 ^ 31"
    using assms hi by simp_all
  ultimately show ?thesis
    by (simp add: sint_c_int_of_int)
qed

subsection \<open>Frequency and phase\<close>

lemma frequency_pos: "0 < frequency step"
  by (simp add: frequency_def BASE_FREQUENCY_def)

lemma phaseInc_pos: "0 < phaseInc step"
  by (simp add: phaseInc_def frequency_pos SAMPLE_RATE_def)

lemma frequency_0: "frequency 0 = 440"
  by (simp add: frequency_def BASE_FREQUENCY_def)

lemma frequency_12: "frequency 12 = 880"
  by (simp add: frequency_def BASE_FREQUENCY_def)

lemma phaseInc_lt_1:
  assumes "sint step \<le> 24"
  shows "phaseInc step < 1"
proof -
  have "real_of_int (sint step) \<le> 24"
    using assms by (simp only: of_int_le_numeral_iff)
  then have "real_of_int (sint step) / 12 \<le> 2"
    by simp
  then have "2 powr (real_of_int (sint step) / 12) \<le> 2 powr 2"
    by (simp only: powr_le_cancel_iff)
  then have "frequency step \<le> 1760"
    by (simp add: frequency_def BASE_FREQUENCY_def)
  then show ?thesis
    by (simp add: phaseInc_def SAMPLE_RATE_def)
qed

lemma phase_step_upper: "ph < 1 \<Longrightarrow> inc < 1 \<Longrightarrow> phase_step inc ph < 1"
  by (simp add: phase_step_def Let_def)

lemma phase_step_lower: "0 \<le> ph \<Longrightarrow> 0 \<le> inc \<Longrightarrow> 0 \<le> phase_step inc ph"
  by (simp add: phase_step_def Let_def)

lemma phase_steps_range:
  assumes "0 \<le> ph" and "ph < 1" and "0 \<le> inc" and "inc < 1"
  shows "0 \<le> (phase_step inc ^^ k) ph \<and> (phase_step inc ^^ k) ph < 1"
  using assms by (induction k) (simp_all add: phase_step_upper phase_step_lower)

subsection \<open>The sample loop\<close>

declare squareWaveCallback_loop.simps [simp del]

lemma squareWaveCallback_loop_phase:
  "snd (squareWaveCallback_loop i n inc amp (buf, ph)) = (phase_step inc ^^ nat (n - i)) ph"
proof (induction i n inc amp "(buf, ph)" arbitrary: buf ph rule: squareWaveCallback_loop.induct)
  case (1 i n inc amp buf ph)
  show ?case
  proof (cases "i < n")
    case True
    then have "nat (n - i) = Suc (nat (n - (i + 1)))"
      by simp
    then show ?thesis
      using True 1 [OF True]
      by (simp add: squareWaveCallback_loop.simps [of i] funpow_Suc_right del: funpow.simps)
  next
    case False
    then show ?thesis
      by (simp add: squareWaveCallback_loop.simps [of i])
  qed
qed

subsection \<open>One callback\<close>

lemma squareWaveCallback_phase:
  "phase (snd (squareWaveCallback stream len st)) =
     (phase_step (phaseInc (semitoneStep st)) ^^ nat (sint (numSamples_of len))) (phase st)"
  by (simp add: squareWaveCallback_def Let_def case_prod_beta
      squareWaveCallback_loop_phase)

lemma squareWaveCallback_semitoneStep:
  "semitoneStep (snd (squareWaveCallback stream len st)) =
     c_mod (semitoneStep st + 1) MAX_SEMITONE_STEPS"
  by (simp add: squareWaveCallback_def Let_def case_prod_beta)

lemma squareWaveCallback_volumeLevel:
  "volumeLevel (snd (squareWaveCallback stream len st)) =
     c_mod (volumeLevel st + 1) MAX_SEMITONE_STEPS"
  by (simp add: squareWaveCallback_def Let_def case_prod_beta)

lemma squareWaveCallback_waveTimer:
  "waveTimer (snd (squareWaveCallback stream len st)) = waveTimer st + numSamples_of len"
  by (simp add: squareWaveCallback_def Let_def case_prod_beta)

subsection \<open>Sequences of callbacks\<close>

lemma after_callbacks_Nil: "after_callbacks [] = init_synth_state"
  by (simp add: after_callbacks_def)

lemma after_callbacks_snoc:
  "after_callbacks (calls @ [(stream, len)]) =
     snd (squareWaveCallback stream len (after_callbacks calls))"
  by (simp add: after_callbacks_def)

lemma after_callbacks_steps:
  "sint (semitoneStep (after_callbacks calls)) = int (length calls) mod 16
   \<and> volumeLevel (after_callbacks calls) = semitoneStep (after_callbacks calls)"
proof (induction calls rule: rev_induct)
  case Nil
  show ?case
    by (simp add: after_callbacks_Nil init_synth_state_def)
next
  case (snoc call calls)
  obtain stream len where call: "call = (stream, len)"
    by (cases call)
  let ?s = "after_callbacks calls"
  have rng: "0 \<le> sint (semitoneStep ?s)" "sint (semitoneStep ?s) < 16"
    using snoc by simp_all
  have "sint (c_mod (semitoneStep ?s + 1) MAX_SEMITONE_STEPS) =
      (int (length calls) mod 16 + 1) mod 16"
    using c_mod_succ [OF rng] snoc by simp
  also have "\<dots> = int (length (calls @ [call])) mod 16"
    by (simp add: mod_simps add.commute)
  finally show ?case
    using snoc
    by (simp add: call after_callbacks_snoc squareWaveCallback_semitoneStep
        squareWaveCallback_volumeLevel)
qed

lemma after_callbacks_step_range:
  "0 \<le> sint (semitoneStep (after_callbacks calls))"
  "sint (semitoneStep (after_callbacks calls)) < 16"
  "0 \<le> sint (volumeLevel (after_callbacks calls))"
  "sint (volumeLevel (after_callbacks calls)) < 16"
  by (simp_all add: after_callbacks_steps)

lemma after_callbacks_phaseInc:
  "0 \<le> phaseInc (semitoneStep (after_callbacks calls))"
  "phaseInc (semitoneStep (after_callbacks calls)) < 1"
proof -
  show "0 \<le> phaseInc (semitoneStep (after_callbacks calls))"
    using phaseInc_pos [of "semitoneStep (after_callbacks calls)"] by simp
  have "sint (semitoneStep (after_callbacks calls)) \<le> 24"
    using after_callbacks_step_range(2) [of calls] by simp
  then show "phaseInc (semitoneStep (after_callbacks calls)) < 1"
    by (rule phaseInc_lt_1)
qed

lemma after_callbacks_phase:
  "0 \<le> phase (after_callbacks calls) \<and> phase (after_callbacks calls) < 1"
proof (induction calls rule: rev_induct)
  case Nil
  show ?case
    by (simp add: after_callbacks_Nil init_synth_state_def)
next
  case (snoc call calls)
  obtain stream len where call: "call = (stream, len)"
    by (cases call)
  show ?case
    unfolding call after_callbacks_snoc squareWaveCallback_phase
    using snoc after_callbacks_phaseInc [of calls]
    by (intro phase_steps_range) simp_all
qed

subsection \<open>Phase range\<close>

text \<open>
  C2.  One sample step keeps the phase in \<open>[0, 1)\<close>: starting below 1, an increment
  below 1 leaves the phase below 1 after the single conditional subtraction, and a
  non-negative increment keeps it non-negative.  The increment \<open>frequency / SAMPLE_RATE\<close>
  of the callback is positive for every value of the pitch step, so whenever it is below
  1 the stepped phase is again in \<open>[0, 1)\<close>, after each sample of the loop and at the end
  of the callback.  Starting from the initial values, the phase is in \<open>[0, 1)\<close> after every
  sample of every callback invocation.
\<close>

theorem phase_stays_in_unit_interval:
  "(ph < 1 \<and> inc < 1 \<longrightarrow> phase_step inc ph < 1)
   \<and> (0 \<le> ph \<and> 0 \<le> inc \<longrightarrow> 0 \<le> phase_step inc ph)
   \<and> 0 < phaseInc step
   \<and> (0 \<le> ph \<and> ph < 1 \<and> phaseInc step < 1 \<longrightarrow>
        0 \<le> phase_step (phaseInc step) ph \<and> phase_step (phaseInc step) ph < 1)
   \<and> (0 \<le> phase st \<and> phase st < 1 \<and> phaseInc (semitoneStep st) < 1 \<longrightarrow>
        0 \<le> (phase_step (phaseInc (semitoneStep st)) ^^ k) (phase st)
        \<and> (phase_step (phaseInc (semitoneStep st)) ^^ k) (phase st) < 1
        \<and> 0 \<le> phase (snd (squareWaveCallback stream len st))
        \<and> phase (snd (squareWaveCallback stream len st)) < 1)
   \<and> phaseInc (semitoneStep (after_callbacks calls)) < 1
   \<and> 0 \<le> (phase_step (phaseInc (semitoneStep (after_callbacks calls))) ^^ k)
              (phase (after_callbacks calls))
   \<and> (phase_step (phaseInc (semitoneStep (after_callbacks calls))) ^^ k)
              (phase (after_callbacks calls)) < 1
   \<and> 0 \<le> phase (after_callbacks calls) \<and> phase (after_callbacks calls) < 1"
proof (intro conjI impI)
  show "phase_step inc ph < 1" if "ph < 1 \<and> inc < 1"
    using that by (simp add: phase_step_upper)
  show "0 \<le> phase_step inc ph" if "0 \<le> ph \<and> 0 \<le> inc"
    using that by (simp add: phase_step_lower)
  show "0 < phaseInc step"
    by (rule phaseInc_pos)
  have one: "0 \<le> phase_step (phaseInc step) ph \<and> phase_step (phaseInc step) ph < 1"
    if "0 \<le> ph \<and> ph < 1 \<and> phaseInc step < 1"
    using that phaseInc_pos [of step] by (simp add: phase_step_upper phase_step_lower)
  show "0 \<le> phase_step (phaseInc step) ph" if "0 \<le> ph \<and> ph < 1 \<and> phaseInc step < 1"
    using one that by blast
  show "phase_step (phaseInc step) ph < 1" if "0 \<le> ph \<and> ph < 1 \<and> phaseInc step < 1"
    using one that by blast
  have many: "0 \<le> (phase_step (phaseInc (semitoneStep st)) ^^ n) (phase st)
      \<and> (phase_step (phaseInc (semitoneStep st)) ^^ n) (phase st) < 1"
    if "0 \<le> phase st \<and> phase st < 1 \<and> phaseInc (semitoneStep st) < 1" for n
    using that phaseInc_pos [of "semitoneStep st"] by (intro phase_steps_range) simp_all
  show "0 \<le> (phase_step (phaseInc (semitoneStep st)) ^^ k) (phase st)"
    if "0 \<le> phase st \<and> phase st < 1 \<and> phaseInc (semitoneStep st) < 1"
    using many [OF that] by blast
  show "(phase_step (phaseInc (semitoneStep st)) ^^ k) (phase st) < 1"
    if "0 \<le> phase st \<and> phase st < 1 \<and> phaseInc (semitoneStep st) < 1"
    using many [OF that] by blast
  show "0 \<le> phase (snd (squareWaveCallback stream len st))"
    if "0 \<le> phase st \<and> phase st < 1 \<and> phaseInc (semitoneStep st) < 1"
    unfolding squareWaveCallback_phase using many [OF that] by blast
  show "phase (snd (squareWaveCallback stream len st)) < 1"
    if "0 \<le> phase st \<and> phase st < 1 \<and> phaseInc (semitoneStep st) < 1"
    unfolding squareWaveCallback_phase using many [OF that] by blast
  show "phaseInc (semitoneStep (after_callbacks calls)) < 1"
    by (rule after_callbacks_phaseInc)
  have reach: "0 \<le> (phase_step (phaseInc (semitoneStep (after_callbacks calls))) ^^ k)
              (phase (after_callbacks calls))
      \<and> (phase_step (phaseInc (semitoneStep (after_callbacks calls))) ^^ k)
              (phase (after_callbacks calls)) < 1"
    using after_callbacks_phase [of calls] after_callbacks_phaseInc [of calls]
    by (intro phase_steps_range) simp_all
  show "0 \<le> (phase_step (phaseInc (semitoneStep (after_callbacks calls))) ^^ k)
              (phase (after_callbacks calls))"
    using reach by blast
  show "(phase_step (phaseInc (semitoneStep (after_callbacks calls))) ^^ k)
              (phase (after_callbacks calls)) < 1"
    using reach by blast
  show "0 \<le> phase (after_callbacks calls)"
    using after_callbacks_phase by blast
  show "phase (after_callbacks calls) < 1"
    using after_callbacks_phase by blast
qed

theorem phase_stays_in_unit_interval_witness:
  "(1 / 2 :: real) < 1 \<and> (3 / 4 :: real) < 1 \<and> (0 :: real) \<le> 1 / 2 \<and> (0 :: real) \<le> 3 / 4
   \<and> 0 \<le> phase_step (3 / 4) (1 / 2) \<and> phase_step (3 / 4) (1 / 2) < 1
   \<and> phaseInc 0 < 1
   \<and> 0 \<le> phase_step (phaseInc 0) (199 / 200) \<and> phase_step (phaseInc 0) (199 / 200) < 1
   \<and> 0 \<le> phase (init_synth_state\<lparr>phase := 199 / 200\<rparr>)
   \<and> phase (init_synth_state\<lparr>phase := 199 / 200\<rparr>) < 1
   \<and> phaseInc (semitoneStep (init_synth_state\<lparr>phase := 199 / 200\<rparr>)) < 1
   \<and> 0 \<le> phase (snd (squareWaveCallback [0, 0] 4 (init_synth_state\<lparr>phase := 199 / 200\<rparr>)))
   \<and> phase (snd (squareWaveCallback [0, 0] 4 (init_synth_state\<lparr>phase := 199 / 200\<rparr>))) < 1"
proof -
  have h1: "(1 / 2 :: real) < 1 \<and> (3 / 4 :: real) < 1"
    by simp
  have h2: "(0 :: real) \<le> 1 / 2 \<and> (0 :: real) \<le> 3 / 4"
    by simp
  have inc0: "phaseInc 0 < 1"
    by (simp add: phaseInc_def frequency_def BASE_FREQUENCY_def SAMPLE_RATE_def)
  have h3: "(0 :: real) \<le> 199 / 200 \<and> (199 / 200 :: real) < 1 \<and> phaseInc 0 < 1"
    using inc0 by simp
  have h4: "0 \<le> phase (init_synth_state\<lparr>phase := 199 / 200\<rparr>)
      \<and> phase (init_synth_state\<lparr>phase := 199 / 200\<rparr>) < 1
      \<and> phaseInc (semitoneStep (init_synth_state\<lparr>phase := 199 / 200\<rparr>)) < 1"
    using inc0 by (simp add: init_synth_state_def)
  note a = phase_stays_in_unit_interval
    [where ph = "1 / 2" and inc = "3 / 4" and step = 0
       and st = "init_synth_state\<lparr>phase := 199 / 200\<rparr>" and stream = "[0, 0]" and len = 4]
  note b = phase_stays_in_unit_interval [where ph = "199 / 200" and step = 0]
  have c1: "phase_step (3 / 4) (1 / 2) < 1"
    using a h1 by blast
  have c2: "0 \<le> phase_step (3 / 4) (1 / 2)"
    using a h2 by blast
  have c3: "0 \<le> phase_step (phaseInc 0) (199 / 200) \<and> phase_step (phaseInc 0) (199 / 200) < 1"
    using b h3 by blast
  have c4: "0 \<le> phase (snd (squareWaveCallback [0, 0] 4 (init_synth_state\<lparr>phase := 199 / 200\<rparr>)))
      \<and> phase (snd (squareWaveCallback [0, 0] 4 (init_synth_state\<lparr>phase := 199 / 200\<rparr>))) < 1"
    using a h4 by blast
  show ?thesis
    using h1 h2 inc0 h4 c1 c2 c3 c4 by blast
qed

subsection \<open>Pitch ladder\<close>

lemma c_int_eqI:
  fixes x :: c_int
  assumes "sint x = k"
  shows "x = word_of_int k"
proof -
  have "word_of_int (sint x) = (word_of_int k :: c_int)"
    by (simp only: assms)
  then show ?thesis
    by simp
qed

text \<open>
  C4.  The frequency of a buffer is \<open>BASE_FREQUENCY * 2^(step/12)\<close> for the pitch step
  at entry of the callback, and it is the frequency that advances the phase of that
  buffer.  At step 0 it is the base frequency 440, at step 12 it is twice the base
  frequency, 880; step 12 is reached after twelve callbacks.
\<close>

theorem frequency_semitone_ladder:
  "frequency step = 440 * 2 powr (real_of_int (sint step) / 12)
   \<and> frequency 0 = real_of_int (sint BASE_FREQUENCY)
   \<and> frequency 0 = 440
   \<and> frequency 12 = real_of_int (sint BASE_FREQUENCY) * 2
   \<and> frequency 12 = 880
   \<and> phase (snd (squareWaveCallback stream len st)) =
        (phase_step (frequency (semitoneStep st) / 44100) ^^ nat (sint (numSamples_of len)))
          (phase st)
   \<and> semitoneStep (after_callbacks []) = 0
   \<and> semitoneStep (after_callbacks (replicate 12 (stream, len))) = 12"
proof (intro conjI)
  show "frequency step = 440 * 2 powr (real_of_int (sint step) / 12)"
    by (simp add: frequency_def BASE_FREQUENCY_def)
  show "frequency 0 = real_of_int (sint BASE_FREQUENCY)"
    by (simp add: frequency_def)
  show "frequency 0 = 440"
    by (rule frequency_0)
  show "frequency 12 = real_of_int (sint BASE_FREQUENCY) * 2"
    by (simp add: frequency_def)
  show "frequency 12 = 880"
    by (rule frequency_12)
  show "phase (snd (squareWaveCallback stream len st)) =
        (phase_step (frequency (semitoneStep st) / 44100) ^^ nat (sint (numSamples_of len)))
          (phase st)"
    by (simp add: squareWaveCallback_phase phaseInc_def SAMPLE_RATE_def)
  show "semitoneStep (after_callbacks []) = 0"
    by (simp add: after_callbacks_Nil init_synth_state_def)
  have "sint (semitoneStep (after_callbacks (replicate 12 (stream, len)))) = 12"
    using after_callbacks_steps [of "replicate 12 (stream, len)"] by simp
  then show "semitoneStep (after_callbacks (replicate 12 (stream, len))) = 12"
    using c_int_eqI [of "semitoneStep (after_callbacks (replicate 12 (stream, len)))" 12]
    by simp
qed

subsection \<open>Step counters\<close>

text \<open>
  C5.  After any sequence of callbacks the pitch step and the volume step are in
  \<open>0..15\<close>, and equal to the number of callbacks modulo 16.  From any state with the
  counters in that range, one callback replaces each counter by its successor modulo
  \<open>MAX_SEMITONE_STEPS = 16\<close>, whatever the stream and the byte count; a counter at 15
  goes to 0, and the new value always differs from the old one, so the counters never
  come to rest.
\<close>

theorem step_counters_cycle:
  assumes "0 \<le> sint (semitoneStep st)" and "sint (semitoneStep st) < sint MAX_SEMITONE_STEPS"
    and "0 \<le> sint (volumeLevel st)" and "sint (volumeLevel st) < sint MAX_SEMITONE_STEPS"
  shows
    "sint (semitoneStep (snd (squareWaveCallback stream len st))) =
        (sint (semitoneStep st) + 1) mod sint MAX_SEMITONE_STEPS
     \<and> sint (volumeLevel (snd (squareWaveCallback stream len st))) =
        (sint (volumeLevel st) + 1) mod sint MAX_SEMITONE_STEPS
     \<and> 0 \<le> sint (semitoneStep (snd (squareWaveCallback stream len st)))
     \<and> sint (semitoneStep (snd (squareWaveCallback stream len st))) < sint MAX_SEMITONE_STEPS
     \<and> 0 \<le> sint (volumeLevel (snd (squareWaveCallback stream len st)))
     \<and> sint (volumeLevel (snd (squareWaveCallback stream len st))) < sint MAX_SEMITONE_STEPS
     \<and> (sint (semitoneStep st) = sint MAX_SEMITONE_STEPS - 1 \<longrightarrow>
          semitoneStep (snd (squareWaveCallback stream len st)) = 0)
     \<and> (sint (volumeLevel st) = sint MAX_SEMITONE_STEPS - 1 \<longrightarrow>
          volumeLevel (snd (squareWaveCallback stream len st)) = 0)
     \<and> semitoneStep (snd (squareWaveCallback stream len st)) \<noteq> semitoneStep st
     \<and> volumeLevel (snd (squareWaveCallback stream len st)) \<noteq> volumeLevel st
     \<and> 0 \<le> sint (semitoneStep (after_callbacks calls))
     \<and> sint (semitoneStep (after_callbacks calls)) < sint MAX_SEMITONE_STEPS
     \<and> 0 \<le> sint (volumeLevel (after_callbacks calls))
     \<and> sint (volumeLevel (after_callbacks calls)) < sint MAX_SEMITONE_STEPS
     \<and> sint (semitoneStep (after_callbacks calls)) =
          int (length calls) mod sint MAX_SEMITONE_STEPS
     \<and> sint (volumeLevel (after_callbacks calls)) =
          int (length calls) mod sint MAX_SEMITONE_STEPS
     \<and> after_callbacks (calls @ [(stream, len)]) =
          snd (squareWaveCallback stream len (after_callbacks calls))"
proof -
  have N: "sint MAX_SEMITONE_STEPS = 16"
    by (simp add: MAX_SEMITONE_STEPS_def)
  let ?p = "semitoneStep (snd (squareWaveCallback stream len st))"
  let ?v = "volumeLevel (snd (squareWaveCallback stream len st))"
  have p: "sint ?p = (sint (semitoneStep st) + 1) mod 16"
    unfolding squareWaveCallback_semitoneStep using assms(1,2)
    by (intro c_mod_succ) (simp_all add: N)
  have v: "sint ?v = (sint (volumeLevel st) + 1) mod 16"
    unfolding squareWaveCallback_volumeLevel using assms(3,4)
    by (intro c_mod_succ) (simp_all add: N)
  have p0: "?p = 0" if "sint (semitoneStep st) = 15"
  proof -
    have "sint ?p = 0"
      using p that by simp
    then show ?thesis
      using c_int_eqI [of ?p 0] by simp
  qed
  have v0: "?v = 0" if "sint (volumeLevel st) = 15"
  proof -
    have "sint ?v = 0"
      using v that by simp
    then show ?thesis
      using c_int_eqI [of ?v 0] by simp
  qed
  have pne: "?p \<noteq> semitoneStep st"
  proof
    assume "?p = semitoneStep st"
    then have "(sint (semitoneStep st) + 1) mod 16 = sint (semitoneStep st)"
      using p by simp
    then show False
      using assms(1,2) unfolding N by presburger
  qed
  have vne: "?v \<noteq> volumeLevel st"
  proof
    assume "?v = volumeLevel st"
    then have "(sint (volumeLevel st) + 1) mod 16 = sint (volumeLevel st)"
      using v by simp
    then show False
      using assms(3,4) unfolding N by presburger
  qed
  have r: "sint (semitoneStep (after_callbacks calls)) = int (length calls) mod 16"
      "sint (volumeLevel (after_callbacks calls)) = int (length calls) mod 16"
    by (simp_all add: after_callbacks_steps)
  show ?thesis
    unfolding N
    using p v p0 v0 pne vne r after_callbacks_snoc [of calls stream len]
    by (intro conjI impI) simp_all
qed

theorem step_counters_cycle_witness:
  "0 \<le> sint (semitoneStep (init_synth_state\<lparr>volumeLevel := 15, semitoneStep := 15\<rparr>))
   \<and> sint (semitoneStep (init_synth_state\<lparr>volumeLevel := 15, semitoneStep := 15\<rparr>))
        < sint MAX_SEMITONE_STEPS
   \<and> 0 \<le> sint (volumeLevel (init_synth_state\<lparr>volumeLevel := 15, semitoneStep := 15\<rparr>))
   \<and> sint (volumeLevel (init_synth_state\<lparr>volumeLevel := 15, semitoneStep := 15\<rparr>))
        < sint MAX_SEMITONE_STEPS
   \<and> sint (semitoneStep (init_synth_state\<lparr>volumeLevel := 15, semitoneStep := 15\<rparr>)) =
        sint MAX_SEMITONE_STEPS - 1
   \<and> sint (volumeLevel (init_synth_state\<lparr>volumeLevel := 15, semitoneStep := 15\<rparr>)) =
        sint MAX_SEMITONE_STEPS - 1
   \<and> semitoneStep (snd (squareWaveCallback [0, 0] 4
        (init_synth_state\<lparr>volumeLevel := 15, semitoneStep := 15\<rparr>))) = 0
   \<and> volumeLevel (snd (squareWaveCallback [0, 0] 4
        (init_synth_state\<lparr>volumeLevel := 15, semitoneStep := 15\<rparr>))) = 0"
proof -
  let ?st = "init_synth_state\<lparr>volumeLevel := 15, semitoneStep := 15\<rparr>"
  have h: "0 \<le> sint (semitoneStep ?st)" "sint (semitoneStep ?st) < sint MAX_SEMITONE_STEPS"
      "0 \<le> sint (volumeLevel ?st)" "sint (volumeLevel ?st) < sint MAX_SEMITONE_STEPS"
    by (simp_all add: MAX_SEMITONE_STEPS_def)
  have e: "sint (semitoneStep ?st) = sint MAX_SEMITONE_STEPS - 1"
      "sint (volumeLevel ?st) = sint MAX_SEMITONE_STEPS - 1"
    by (simp_all add: MAX_SEMITONE_STEPS_def)
  note main = step_counters_cycle [OF h, of "[0, 0]" 4]
  have "semitoneStep (snd (squareWaveCallback [0, 0] 4 ?st)) = 0"
    using main e(1) by blast
  moreover have "volumeLevel (snd (squareWaveCallback [0, 0] 4 ?st)) = 0"
    using main e(2) by blast
  ultimately show ?thesis
    using h e by blast
qed

text \<open>
  C10.  The pitch step and the volume step start at 0 and are equal after every
  sequence of callbacks; a callback started with equal counters ends with equal
  counters.
\<close>

theorem pitch_and_volume_steps_in_lockstep:
  "semitoneStep init_synth_state = 0 \<and> volumeLevel init_synth_state = 0
   \<and> volumeLevel (after_callbacks calls) = semitoneStep (after_callbacks calls)
   \<and> volumeLevel (snd (squareWaveCallback stream len (after_callbacks calls))) =
       semitoneStep (snd (squareWaveCallback stream len (after_callbacks calls)))"
proof -
  have "volumeLevel (after_callbacks calls) = semitoneStep (after_callbacks calls)"
    by (simp add: after_callbacks_steps)
  moreover have "volumeLevel (after_callbacks (calls @ [(stream, len)])) =
      semitoneStep (after_callbacks (calls @ [(stream, len)]))"
    by (simp only: after_callbacks_steps)
  ultimately show ?thesis
    by (simp add: init_synth_state_def after_callbacks_snoc)
qed

section \<open>Properties that hold in every arithmetic of double\<close>

declare squareWaveCallback_loop_fp.simps [simp del]

lemma squareWaveCallback_loop_fp_phase:
  "snd (squareWaveCallback_loop_fp ar i n inc amp (buf, ph)) =
     (phase_step_fp ar inc ^^ nat (n - i)) ph"
proof (induction ar i n inc amp "(buf, ph)" arbitrary: buf ph
    rule: squareWaveCallback_loop_fp.induct)
  case (1 ar i n inc amp buf ph)
  show ?case
  proof (cases "i < n")
    case True
    then have "nat (n - i) = Suc (nat (n - (i + 1)))"
      by simp
    then show ?thesis
      using True 1 [OF True]
      by (simp add: squareWaveCallback_loop_fp.simps [of ar i] funpow_Suc_right
          del: funpow.simps)
  next
    case False
    then show ?thesis
      by (simp add: squareWaveCallback_loop_fp.simps [of ar i])
  qed
qed

lemma squareWaveCallback_loop_fp_length:
  "length (fst (squareWaveCallback_loop_fp ar i n inc amp (buf, ph))) = length buf"
proof (induction ar i n inc amp "(buf, ph)" arbitrary: buf ph
    rule: squareWaveCallback_loop_fp.induct)
  case (1 ar i n inc amp buf ph)
  then show ?case
    by (cases "i < n") (simp_all add: squareWaveCallback_loop_fp.simps [of ar i])
qed

lemma squareWaveCallback_loop_fp_nth:
  assumes "0 \<le> i" and "k < length buf"
  shows "fst (squareWaveCallback_loop_fp ar i n inc amp (buf, ph)) ! k =
    (if nat i \<le> k \<and> int k < n
     then sample_value_fp ar ((phase_step_fp ar inc ^^ (k - nat i)) ph) amp else buf ! k)"
  using assms
proof (induction ar i n inc amp "(buf, ph)" arbitrary: buf ph
    rule: squareWaveCallback_loop_fp.induct)
  case (1 ar i n inc amp buf ph)
  show ?case
  proof (cases "i < n")
    case False
    then have "\<not> (nat i \<le> k \<and> int k < n)"
      using 1(2) by linarith
    moreover have "squareWaveCallback_loop_fp ar i n inc amp (buf, ph) = (buf, ph)"
      using False by (simp add: squareWaveCallback_loop_fp.simps [of ar i])
    ultimately show ?thesis
      by auto
  next
    case True
    have step: "fst (squareWaveCallback_loop_fp ar i n inc amp (buf, ph)) ! k =
        fst (squareWaveCallback_loop_fp ar (i + 1) n inc amp
              (buf[nat i := sample_value_fp ar ph amp], phase_step_fp ar inc ph)) ! k"
      using True by (simp add: squareWaveCallback_loop_fp.simps [of ar i])
    have ih: "fst (squareWaveCallback_loop_fp ar (i + 1) n inc amp
              (buf[nat i := sample_value_fp ar ph amp], phase_step_fp ar inc ph)) ! k =
        (if nat (i + 1) \<le> k \<and> int k < n
         then sample_value_fp ar
                ((phase_step_fp ar inc ^^ (k - nat (i + 1))) (phase_step_fp ar inc ph)) amp
         else buf[nat i := sample_value_fp ar ph amp] ! k)"
      using 1(1) [OF True] 1(2,3) by simp
    consider "k < nat i" | "k = nat i" | "nat i < k"
      by linarith
    then show ?thesis
    proof cases
      case 1
      then have "\<not> nat (i + 1) \<le> k" and "\<not> nat i \<le> k" and "nat i \<noteq> k"
        by linarith+
      then show ?thesis
        unfolding step ih by simp
    next
      case 2
      then have "\<not> nat (i + 1) \<le> k" and "nat i \<le> k" and "int k < n"
        using True \<open>0 \<le> i\<close> by linarith+
      then show ?thesis
        unfolding step ih using 2 \<open>k < length buf\<close> by simp
    next
      case 3
      then have "nat (i + 1) \<le> k" and "nat i \<le> k" and "nat i \<noteq> k"
        using \<open>0 \<le> i\<close> by linarith+
      moreover have "k - nat i = Suc (k - nat (i + 1))"
        using 3 \<open>0 \<le> i\<close> by linarith
      ultimately show ?thesis
        unfolding step ih by (simp add: funpow_Suc_right del: funpow.simps)
    qed
  qed
qed

lemma sample_value_fp_alt:
  "sample_value_fp ar ph amp = (if fp_lt ar ph (fp_lit ar (1 / 2)) then amp else - amp)"
  by (simp add: sample_value_fp_def narrow_neg)

lemma squareWaveCallback_fp_buffer:
  "fst (squareWaveCallback_fp ar stream len st) =
     fst (squareWaveCallback_loop_fp ar 0 (sint (numSamples_of len))
            (phaseInc_fp ar (semitoneStep st)) (scaledAmplitude (volumeLevel st))
            (stream, phase st))"
  by (simp add: squareWaveCallback_fp_def Let_def case_prod_beta)

lemma squareWaveCallback_fp_state:
  "snd (squareWaveCallback_fp ar stream len st) =
     st\<lparr>phase := (phase_step_fp ar (phaseInc_fp ar (semitoneStep st))
                      ^^ nat (sint (numSamples_of len))) (phase st),
        waveTimer := waveTimer st + numSamples_of len,
        semitoneStep := c_mod (semitoneStep st + 1) MAX_SEMITONE_STEPS,
        volumeLevel := c_mod (volumeLevel st + 1) MAX_SEMITONE_STEPS\<rparr>"
  by (simp add: squareWaveCallback_fp_def Let_def case_prod_beta
      squareWaveCallback_loop_fp_phase)

lemma squareWaveCallback_fp_samples:
  assumes "nat (sint (numSamples_of len)) \<le> length stream"
  shows "fst (squareWaveCallback_fp ar stream len st) =
    map (\<lambda>i. sample_value_fp ar
                 ((phase_step_fp ar (phaseInc_fp ar (semitoneStep st)) ^^ i) (phase st))
                 (scaledAmplitude (volumeLevel st)))
        [0..<nat (sint (numSamples_of len))]
    @ drop (nat (sint (numSamples_of len))) stream"
proof (rule nth_equalityI)
  let ?n = "nat (sint (numSamples_of len))"
  let ?f = "\<lambda>i. sample_value_fp ar
                 ((phase_step_fp ar (phaseInc_fp ar (semitoneStep st)) ^^ i) (phase st))
                 (scaledAmplitude (volumeLevel st))"
  have len: "length (fst (squareWaveCallback_fp ar stream len st)) = length stream"
    by (simp add: squareWaveCallback_fp_buffer squareWaveCallback_loop_fp_length)
  show "length (fst (squareWaveCallback_fp ar stream len st)) =
      length (map ?f [0..<?n] @ drop ?n stream)"
    using assms by (simp add: len)
  fix i
  assume "i < length (fst (squareWaveCallback_fp ar stream len st))"
  then have i: "i < length stream"
    by (simp add: len)
  show "fst (squareWaveCallback_fp ar stream len st) ! i =
      (map ?f [0..<?n] @ drop ?n stream) ! i"
  proof (cases "i < ?n")
    case True
    then have "int i < sint (numSamples_of len)"
      by linarith
    then show ?thesis
      using True i
      by (simp add: squareWaveCallback_fp_buffer squareWaveCallback_loop_fp_nth nth_append)
  next
    case False
    then have "\<not> int i < sint (numSamples_of len)"
      by linarith
    then show ?thesis
      using False i assms
      by (simp add: squareWaveCallback_fp_buffer squareWaveCallback_loop_fp_nth nth_append)
  qed
qed

lemma after_callbacks_fp_Nil: "after_callbacks_fp ar [] = init_synth_state_fp ar"
  by (simp add: after_callbacks_fp_def)

lemma after_callbacks_fp_snoc:
  "after_callbacks_fp ar (calls @ [(stream, len)]) =
     snd (squareWaveCallback_fp ar stream len (after_callbacks_fp ar calls))"
  by (simp add: after_callbacks_fp_def)

lemma after_callbacks_fp_steps:
  "sint (semitoneStep (after_callbacks_fp ar calls)) = int (length calls) mod 16
   \<and> volumeLevel (after_callbacks_fp ar calls) = semitoneStep (after_callbacks_fp ar calls)"
proof (induction calls rule: rev_induct)
  case Nil
  show ?case
    by (simp add: after_callbacks_fp_Nil init_synth_state_fp_def)
next
  case (snoc call calls)
  obtain stream len where call: "call = (stream, len)"
    by (cases call)
  let ?s = "after_callbacks_fp ar calls"
  have rng: "0 \<le> sint (semitoneStep ?s)" "sint (semitoneStep ?s) < 16"
    using snoc by simp_all
  have "sint (c_mod (semitoneStep ?s + 1) MAX_SEMITONE_STEPS) =
      (int (length calls) mod 16 + 1) mod 16"
    using c_mod_succ [OF rng] snoc by simp
  also have "\<dots> = int (length (calls @ [call])) mod 16"
    by (simp add: mod_simps add.commute)
  finally show ?case
    using snoc
    by (simp add: call after_callbacks_fp_snoc squareWaveCallback_fp_state)
qed

subsection \<open>The exact arithmetic is an instance\<close>

lemma phase_step_fp_exact: "phase_step_fp exact_arith inc ph = phase_step inc ph"
  by (simp add: phase_step_fp_def phase_step_def exact_arith_def Let_def)

lemma sample_value_fp_exact: "sample_value_fp exact_arith ph amp = sample_value ph amp"
  by (simp add: sample_value_fp_def sample_value_def exact_arith_def)

lemma phaseInc_fp_exact: "phaseInc_fp exact_arith step = phaseInc step"
  by (simp add: phaseInc_fp_def frequency_fp_def phaseInc_def frequency_def exact_arith_def)

lemma squareWaveCallback_loop_fp_exact:
  "squareWaveCallback_loop_fp exact_arith i n inc amp (buf, ph) =
     squareWaveCallback_loop i n inc amp (buf, ph)"
proof (induction i n inc amp "(buf, ph)" arbitrary: buf ph
    rule: squareWaveCallback_loop.induct)
  case (1 i n inc amp buf ph)
  show ?case
  proof (cases "i < n")
    case True
    then show ?thesis
      using 1 [OF True]
      by (simp add: squareWaveCallback_loop_fp.simps [of exact_arith i]
          squareWaveCallback_loop.simps [of i] phase_step_fp_exact sample_value_fp_exact)
  next
    case False
    then show ?thesis
      by (simp add: squareWaveCallback_loop_fp.simps [of exact_arith i]
          squareWaveCallback_loop.simps [of i])
  qed
qed

lemma squareWaveCallback_fp_exact:
  "squareWaveCallback_fp exact_arith stream len st = squareWaveCallback stream len st"
  by (simp add: squareWaveCallback_fp_def squareWaveCallback_def phaseInc_fp_exact
      squareWaveCallback_loop_fp_exact)

lemma init_synth_state_fp_exact: "init_synth_state_fp exact_arith = init_synth_state"
  by (simp add: init_synth_state_fp_def init_synth_state_def exact_arith_def)

lemma after_callbacks_fp_exact: "after_callbacks_fp exact_arith calls = after_callbacks calls"
  by (simp add: after_callbacks_fp_def after_callbacks_def squareWaveCallback_fp_exact
      init_synth_state_fp_exact)

section \<open>Properties of binary64 rounding\<close>

lemma pow2_powi: "pow2 q = 2 powi q"
  by (simp add: pow2_def power_int_def inverse_eq_divide power_one_over)

lemma pow2_pos: "0 < pow2 q"
  by (simp add: pow2_powi)

lemma pow2_add: "pow2 (a + b) = pow2 a * pow2 b"
  by (simp add: pow2_powi power_int_add)

lemma pow2_mono: "a \<le> b \<Longrightarrow> pow2 a \<le> pow2 b"
  by (simp add: pow2_powi power_int_increasing)

lemma pow2_strict_mono: "a < b \<Longrightarrow> pow2 a < pow2 b"
  by (simp add: pow2_powi power_int_strict_increasing)

lemma pow2_nat: "pow2 (int k) = 2 ^ k"
  by (simp add: pow2_def)

lemma bit_length_bounds:
  "0 < n \<Longrightarrow> 2 ^ (bit_length n - 1) \<le> n \<and> n < 2 ^ bit_length n \<and> 0 < bit_length n"
proof (induction n rule: bit_length.induct)
  case (1 n)
  show ?case
  proof (cases "n = 1")
    case True
    then show ?thesis
      by (simp add: bit_length.simps [of 1] bit_length.simps [of 0])
  next
    case False
    with 1(2) have m: "0 < n div 2"
      by simp
    from 1(2) have pos: "\<not> n \<le> 0"
      by simp
    note ih = 1(1) [OF pos m]
    let ?b = "bit_length (n div 2)"
    have bl: "bit_length n = Suc ?b"
      using pos by (simp add: bit_length.simps [of n])
    from ih have b1: "?b = Suc (?b - 1)"
      by simp
    have lo: "2 ^ ?b \<le> n"
    proof -
      have "(2::int) ^ ?b = 2 * 2 ^ (?b - 1)"
        by (subst b1) simp
      also have "\<dots> \<le> 2 * (n div 2)"
        using ih by simp
      also have "\<dots> \<le> n"
        by simp
      finally show ?thesis .
    qed
    have hi: "n < 2 ^ Suc ?b"
    proof -
      have "n div 2 + 1 \<le> 2 ^ ?b"
        using ih by simp
      then have "2 * (n div 2) + 2 \<le> 2 * 2 ^ ?b"
        by simp
      moreover have "n < 2 * (n div 2) + 2"
        by presburger
      ultimately show ?thesis
        by simp
    qed
    show ?thesis
      using lo hi by (simp add: bl)
  qed
qed

lemma bit_length_eq:
  assumes "2 ^ k \<le> n" and "n < 2 ^ Suc k"
  shows "bit_length n = Suc k"
proof -
  have pos: "0 < n"
    using assms(1) by (smt (verit) zero_less_power)
  note b = bit_length_bounds [OF pos]
  have "(2::int) ^ (bit_length n - 1) < 2 ^ Suc k"
    using b assms(2) by linarith
  then have "bit_length n - 1 < Suc k"
    by (simp only: power_strict_increasing_iff [of "2::int"]) 
  moreover have "(2::int) ^ k < 2 ^ bit_length n"
    using b assms(1) by linarith
  then have "k < bit_length n"
    by simp
  ultimately show ?thesis
    by linarith
qed

lemma ilog2_eq:
  assumes "pow2 e \<le> a" and "a < pow2 (e + 1)"
  shows "ilog2 a = e"
proof (cases "0 \<le> e")
  case True
  define k where "k = nat e"
  have e: "e = int k"
    using True by (simp add: k_def)
  have lo: "2 ^ k \<le> a" and hi: "a < 2 ^ Suc k"
    using assms pow2_nat [of k] pow2_nat [of "Suc k"] by (simp_all add: e add.commute)
  have "1 \<le> a"
    using lo by (smt (verit) one_le_power)
  have "(2::int) ^ k \<le> \<lfloor>a\<rfloor>"
    using lo by (simp add: le_floor_iff)
  moreover have "\<lfloor>a\<rfloor> < 2 ^ Suc k"
    using hi by (simp add: floor_less_iff)
  ultimately have "bit_length \<lfloor>a\<rfloor> = Suc k"
    by (rule bit_length_eq)
  then show ?thesis
    using \<open>1 \<le> a\<close> by (simp add: ilog2_def e)
next
  case False
  define k where "k = nat (- e - 1)"
  have e: "e = - int k - 1"
    using False by (simp add: k_def)
  have p1: "pow2 e = 1 / 2 ^ Suc k"
    using False by (simp add: pow2_def e nat_add_distrib)
  have p2: "pow2 (e + 1) = 1 / 2 ^ k"
    by (simp add: pow2_def e)
  have apos: "0 < a"
    using assms(1) pow2_pos [of e] by linarith
  have lt1: "a < 1"
  proof -
    have "(1::real) / 2 ^ k \<le> 1"
      by simp
    then show ?thesis
      using assms(2) p2 by linarith
  qed
  have lo: "2 ^ k < 1 / a"
    using assms(2) apos unfolding p2 by (simp add: field_simps)
  have hi: "1 / a \<le> 2 ^ Suc k"
    using assms(1) apos unfolding p1 by (simp add: field_simps)
  have "(2::int) ^ k < \<lceil>1 / a\<rceil>"
    using lo by (simp add: less_ceiling_iff)
  then have c1: "(2::int) ^ k \<le> \<lceil>1 / a\<rceil> - 1"
    by simp
  have "\<lceil>1 / a\<rceil> \<le> 2 ^ Suc k"
    using hi by (simp add: ceiling_le_iff)
  then have c2: "\<lceil>1 / a\<rceil> - 1 < 2 ^ Suc k"
    by simp
  have "bit_length (\<lceil>1 / a\<rceil> - 1) = Suc k"
    using c1 c2 by (rule bit_length_eq)
  then show ?thesis
    using lt1 by (simp add: ilog2_def e)
qed

lemma round_half_even_bounds:
  "\<lfloor>s\<rfloor> \<le> round_half_even s \<and> round_half_even s \<le> \<lfloor>s\<rfloor> + 1"
  by (simp add: round_half_even_def Let_def)

lemma round_double_normal:
  assumes "pow2 e \<le> \<bar>x\<bar>" and "\<bar>x\<bar> < pow2 (e + 1)" and "- 1022 \<le> e" and "e \<le> 1022"
  shows "round_double x =
    Finite (sgn x * (of_int (round_half_even (\<bar>x\<bar> / pow2 (e - 52))) * pow2 (e - 52)))"
proof -
  have nz: "x \<noteq> 0"
    using assms(1) pow2_pos [of e] by auto
  have il: "ilog2 \<bar>x\<bar> = e"
    using assms(1,2) by (rule ilog2_eq)
  have q: "max (ilog2 \<bar>x\<bar> - 52) (- 1074) = e - 52"
    using assms(3) by (simp add: il)
  let ?s = "\<bar>x\<bar> / pow2 (e - 52)"
  let ?m = "round_half_even ?s"
  have split: "pow2 (e + 1) = pow2 53 * pow2 (e - 52)"
    using pow2_add [of 53 "e - 52"] by (simp add: add.commute)
  then have "?s < pow2 53"
    using assms(2) pow2_pos [of "e - 52"] by (simp add: field_simps)
  then have "?s < 2 ^ 53"
    using pow2_nat [of 53] by simp
  then have "\<lfloor>?s\<rfloor> < 2 ^ 53"
    by (simp add: floor_less_iff)
  then have "?m \<le> 2 ^ 53"
    using round_half_even_bounds [of ?s] by linarith
  then have "real_of_int ?m \<le> 2 ^ 53"
    by (metis of_int_le_iff of_int_numeral of_int_power)
  then have "real_of_int ?m * pow2 (e - 52) \<le> 2 ^ 53 * pow2 (e - 52)"
    using pow2_pos [of "e - 52"] by (simp add: mult_right_mono)
  also have "\<dots> = pow2 (e + 1)"
    using split pow2_nat [of 53] by simp
  also have "\<dots> < pow2 1024"
    using assms(4) by (intro pow2_strict_mono) simp
  finally have "\<not> pow2 1024 \<le> real_of_int ?m * pow2 (e - 52)"
    by simp
  then show ?thesis
    using nz by (simp add: round_double_def q Let_def)
qed

lemma round_double_0: "round_double 0 = Finite 0"
  by (simp add: round_double_def)

lemma round_double_exact:
  assumes "pow2 e \<le> \<bar>x\<bar>" and "\<bar>x\<bar> < pow2 (e + 1)" and "- 1022 \<le> e" and "e \<le> 1022"
    and "\<bar>x\<bar> / pow2 (e - 52) = of_int m"
  shows "round_double x = Finite x"
proof -
  have "round_half_even (\<bar>x\<bar> / pow2 (e - 52)) = m"
    unfolding assms(5) by (simp add: round_half_even_def)
  then have "round_double x = Finite (sgn x * (of_int m * pow2 (e - 52)))"
    using round_double_normal [OF assms(1-4)] by simp
  also have "of_int m * pow2 (e - 52) = \<bar>x\<bar>"
    using assms(5) pow2_pos [of "e - 52"] by (simp add: field_simps)
  also have "sgn x * \<bar>x\<bar> = x"
    by (simp add: sgn_if)
  finally show ?thesis .
qed

lemma round_double_literals:
  "round_double (1 / 2) = Finite (1 / 2)"
  "round_double 1 = Finite 1"
  "round_double 2 = Finite 2"
  "round_double 12 = Finite 12"
  "round_double 440 = Finite 440"
  "round_double 44100 = Finite 44100"
proof -
  show "round_double (1 / 2) = Finite (1 / 2)"
    by (rule round_double_exact [where e = "- 1" and m = "2 ^ 52"]) (simp_all add: pow2_def)
  show "round_double 1 = Finite 1"
    by (rule round_double_exact [where e = 0 and m = "2 ^ 52"]) (simp_all add: pow2_def)
  show "round_double 2 = Finite 2"
    by (rule round_double_exact [where e = 1 and m = "2 ^ 52"]) (simp_all add: pow2_def)
  show "round_double 12 = Finite 12"
    by (rule round_double_exact [where e = 3 and m = "3 * 2 ^ 51"]) (simp_all add: pow2_def)
  show "round_double 440 = Finite 440"
    by (rule round_double_exact [where e = 8 and m = "55 * 2 ^ 47"]) (simp_all add: pow2_def)
  show "round_double 44100 = Finite 44100"
    by (rule round_double_exact [where e = 15 and m = "11025 * 2 ^ 39"])
      (simp_all add: pow2_def)
qed

text \<open>
  At pitch step 0 the increment is the value of \<^verbatim>\<open>double\<close> nearest to \<open>440 / 44100\<close>,
  \<^verbatim>\<open>0x1.46efdcb4a6b82p-7\<close>.
\<close>

lemma phaseInc_fp_binary64_0:
  "phaseInc_fp binary64 0 = Finite (2875767925323201 / 288230376151711744)"
proof -
  have "round_double (440 / 44100) =
      Finite (sgn (440 / 44100) *
        (of_int (round_half_even (\<bar>440 / 44100\<bar> / pow2 (- 7 - 52))) * pow2 (- 7 - 52)))"
    by (rule round_double_normal) (simp_all add: pow2_def)
  also have "\<dots> = Finite (2875767925323201 / 288230376151711744)"
    by (simp add: pow2_def round_half_even_def Let_def)
  finally have "round_double (440 / 44100) =
      Finite (2875767925323201 / 288230376151711744)" .
  then have q: "round_double (22 / 2205) = Finite (2875767925323201 / 288230376151711744)"
    by simp
  show ?thesis
    by (simp add: phaseInc_fp_def frequency_fp_def binary64_def BASE_FREQUENCY_def
        SAMPLE_RATE_def round_double_literals round_double_0 q)
qed

section \<open>Samples of one buffer\<close>

text \<open>
  C3.  Within one invocation of \<^verbatim>\<open>squareWaveCallback\<close> on a stream that holds the
  requested samples, and in every arithmetic of \<^verbatim>\<open>double\<close>, sample \<open>i\<close> is
  \<open>scaledAmplitude\<close> when the phase accumulator at that sample compares below 0.5, and
  \<open>- scaledAmplitude\<close> otherwise.  The accumulator at sample \<open>i\<close> is the phase at entry
  after \<open>i\<close> sample steps of the code, taken in that arithmetic.  The amplitude and the
  phase increment are those of the volume step and the pitch step at entry, the same for
  all samples of the buffer; entries of the stream beyond the requested samples keep
  their value.  For a volume step in \<open>0..15\<close>, which is where the counter stays, the
  amplitude is \<open>AMPLITUDE * volumeLevel\<close> divided by \<open>MAX_SEMITONE_STEPS - 1\<close> in integer
  arithmetic.
\<close>

theorem squareWaveCallback_square_wave_samples:
  assumes "nat (sint (numSamples_of len)) \<le> length stream"
  shows
    "length (fst (squareWaveCallback_fp ar stream len st)) = length stream
     \<and> (\<forall>i < nat (sint (numSamples_of len)).
          fst (squareWaveCallback_fp ar stream len st) ! i =
            (if fp_lt ar
                  ((phase_step_fp ar (phaseInc_fp ar (semitoneStep st)) ^^ i) (phase st))
                  (fp_lit ar (1 / 2))
             then scaledAmplitude (volumeLevel st)
             else - scaledAmplitude (volumeLevel st)))
     \<and> (\<forall>i. nat (sint (numSamples_of len)) \<le> i \<and> i < length stream \<longrightarrow>
          fst (squareWaveCallback_fp ar stream len st) ! i = stream ! i)
     \<and> (0 \<le> sint (volumeLevel st) \<and> sint (volumeLevel st) < sint MAX_SEMITONE_STEPS \<longrightarrow>
          sint (scaledAmplitude (volumeLevel st)) =
            (sint AMPLITUDE * sint (volumeLevel st)) div (sint MAX_SEMITONE_STEPS - 1))
     \<and> 0 \<le> sint (volumeLevel (after_callbacks_fp ar calls))
     \<and> sint (volumeLevel (after_callbacks_fp ar calls)) < sint MAX_SEMITONE_STEPS"
proof (intro conjI allI impI)
  let ?n = "sint (numSamples_of len)"
  show "length (fst (squareWaveCallback_fp ar stream len st)) = length stream"
    by (simp add: squareWaveCallback_fp_buffer squareWaveCallback_loop_fp_length)
  show "fst (squareWaveCallback_fp ar stream len st) ! i =
        (if fp_lt ar
              ((phase_step_fp ar (phaseInc_fp ar (semitoneStep st)) ^^ i) (phase st))
              (fp_lit ar (1 / 2))
         then scaledAmplitude (volumeLevel st)
         else - scaledAmplitude (volumeLevel st))"
    if "i < nat ?n" for i
  proof -
    have "i < length stream" and "int i < ?n"
      using that assms by linarith+
    then show ?thesis
      by (simp add: squareWaveCallback_fp_buffer squareWaveCallback_loop_fp_nth
          sample_value_fp_alt)
  qed
  show "fst (squareWaveCallback_fp ar stream len st) ! i = stream ! i"
    if "nat ?n \<le> i \<and> i < length stream" for i
  proof -
    have "i < length stream" and "\<not> int i < ?n"
      using that by linarith+
    then show ?thesis
      by (simp add: squareWaveCallback_fp_buffer squareWaveCallback_loop_fp_nth)
  qed
  show "sint (scaledAmplitude (volumeLevel st)) =
        (sint AMPLITUDE * sint (volumeLevel st)) div (sint MAX_SEMITONE_STEPS - 1)"
    if "0 \<le> sint (volumeLevel st) \<and> sint (volumeLevel st) < sint MAX_SEMITONE_STEPS"
    using that
    by (simp add: scaledAmplitude_in_range MAX_SEMITONE_STEPS_def AMPLITUDE_def)
  have v: "sint (volumeLevel (after_callbacks_fp ar calls)) = int (length calls) mod 16"
    by (simp add: after_callbacks_fp_steps)
  show "0 \<le> sint (volumeLevel (after_callbacks_fp ar calls))"
    by (simp add: v)
  show "sint (volumeLevel (after_callbacks_fp ar calls)) < sint MAX_SEMITONE_STEPS"
    by (simp add: v MAX_SEMITONE_STEPS_def)
qed

text \<open>
  The witness runs the callback in binary64 for three samples at pitch step 0 and
  volume step 3, starting at phase \<open>31 / 64\<close>.  The accumulator takes the values
  \<open>0.484375\<close>, \<open>0.49435232426303855\<close> and \<open>0.5043296485260771\<close>: the first two samples
  are +5600, the third is -5600, and the fourth entry of the stream is untouched.
\<close>

lemma binary64_three_phases:
  "phase_step_fp binary64 (Finite (2875767925323201 / 288230376151711744)) (Finite (31 / 64)) =
     Finite (2226364943340759 / 4503599627370496)"
  "phase_step_fp binary64 (Finite (2875767925323201 / 288230376151711744))
     (Finite (2226364943340759 / 4503599627370496)) =
     Finite (1135649408586967 / 2251799813685248)"
proof -
  have r1: "round_double (31 / 64 + 2875767925323201 / 288230376151711744) =
      Finite (2226364943340759 / 4503599627370496)"
    by (subst round_double_normal [where e = "- 2"])
      (simp_all add: pow2_def round_half_even_def Let_def)
  have r2: "round_double
        (2226364943340759 / 4503599627370496 + 2875767925323201 / 288230376151711744) =
      Finite (1135649408586967 / 2251799813685248)"
    by (subst round_double_normal [where e = "- 1"])
      (simp_all add: pow2_def round_half_even_def Let_def)
  show "phase_step_fp binary64 (Finite (2875767925323201 / 288230376151711744))
      (Finite (31 / 64)) = Finite (2226364943340759 / 4503599627370496)"
    by (simp add: phase_step_fp_def binary64_def d_ge_def round_double_literals Let_def
        r1 [simplified])
  show "phase_step_fp binary64 (Finite (2875767925323201 / 288230376151711744))
      (Finite (2226364943340759 / 4503599627370496)) =
      Finite (1135649408586967 / 2251799813685248)"
    by (simp add: phase_step_fp_def binary64_def d_ge_def round_double_literals Let_def
        r2 [simplified])
qed

theorem squareWaveCallback_square_wave_samples_witness:
  "nat (sint (numSamples_of 6)) \<le> length [7, 7, 7, 7 :: 16 word]
   \<and> (0 :: nat) < nat (sint (numSamples_of 6)) \<and> (2 :: nat) < nat (sint (numSamples_of 6))
   \<and> nat (sint (numSamples_of 6)) \<le> 3 \<and> (3 :: nat) < length [7, 7, 7, 7 :: 16 word]
   \<and> 0 \<le> sint (volumeLevel
          \<lparr>phase = Finite (31 / 64), waveTimer = 0, volumeLevel = 3, semitoneStep = 0\<rparr>)
   \<and> sint (volumeLevel
          \<lparr>phase = Finite (31 / 64), waveTimer = 0, volumeLevel = 3, semitoneStep = 0\<rparr>)
        < sint MAX_SEMITONE_STEPS
   \<and> sint (scaledAmplitude 3) = 5600
   \<and> fst (squareWaveCallback_fp binary64 [7, 7, 7, 7] 6
        \<lparr>phase = Finite (31 / 64), waveTimer = 0, volumeLevel = 3, semitoneStep = 0\<rparr>) ! 0
       = 5600
   \<and> fst (squareWaveCallback_fp binary64 [7, 7, 7, 7] 6
        \<lparr>phase = Finite (31 / 64), waveTimer = 0, volumeLevel = 3, semitoneStep = 0\<rparr>) ! 1
       = 5600
   \<and> fst (squareWaveCallback_fp binary64 [7, 7, 7, 7] 6
        \<lparr>phase = Finite (31 / 64), waveTimer = 0, volumeLevel = 3, semitoneStep = 0\<rparr>) ! 2
       = - 5600
   \<and> fst (squareWaveCallback_fp binary64 [7, 7, 7, 7] 6
        \<lparr>phase = Finite (31 / 64), waveTimer = 0, volumeLevel = 3, semitoneStep = 0\<rparr>) ! 3
       = 7"
proof -
  let ?st = "\<lparr>phase = Finite (31 / 64), waveTimer = 0, volumeLevel = 3, semitoneStep = 0\<rparr>
    :: double synth_state"
  let ?inc = "Finite (2875767925323201 / 288230376151711744)"
  have n: "sint (numSamples_of 6) = 3"
    by (simp add: numSamples_of_def)
  have h: "nat (sint (numSamples_of 6)) \<le> length [7, 7, 7, 7 :: 16 word]"
    by (simp add: n)
  have v: "0 \<le> sint (volumeLevel ?st) \<and> sint (volumeLevel ?st) < sint MAX_SEMITONE_STEPS"
    by (simp add: MAX_SEMITONE_STEPS_def)
  have inc: "phaseInc_fp binary64 (semitoneStep ?st) = ?inc"
    by (simp add: phaseInc_fp_binary64_0)
  have half: "fp_lit binary64 (1 / 2) = Finite (1 / 2)"
    by (simp add: binary64_def round_double_literals)
  have p0: "fp_lt binary64 ((phase_step_fp binary64 ?inc ^^ 0) (phase ?st)) (Finite (1 / 2))"
    by (simp add: binary64_def)
  have p1: "fp_lt binary64 ((phase_step_fp binary64 ?inc ^^ 1) (phase ?st)) (Finite (1 / 2))"
    by (simp add: binary64_three_phases) (simp add: binary64_def)
  have p2: "\<not> fp_lt binary64 ((phase_step_fp binary64 ?inc ^^ 2) (phase ?st)) (Finite (1 / 2))"
    by (simp add: numeral_2_eq_2 binary64_three_phases) (simp add: binary64_def)
  note main = squareWaveCallback_square_wave_samples [OF h, of binary64 ?st]
  have amp: "sint (scaledAmplitude 3) = 5600"
    using main v by (simp add: AMPLITUDE_def MAX_SEMITONE_STEPS_def)
  have "word_of_int (sint (scaledAmplitude 3)) = (word_of_int 5600 :: 16 word)"
    by (simp only: amp)
  then have amp': "scaledAmplitude 3 = 5600"
    by simp
  from main have samples: "\<forall>i < nat (sint (numSamples_of 6)).
      fst (squareWaveCallback_fp binary64 [7, 7, 7, 7] 6 ?st) ! i =
        (if fp_lt binary64
              ((phase_step_fp binary64 (phaseInc_fp binary64 (semitoneStep ?st)) ^^ i)
                 (phase ?st))
              (fp_lit binary64 (1 / 2))
         then scaledAmplitude (volumeLevel ?st)
         else - scaledAmplitude (volumeLevel ?st))"
    by blast
  have s0: "fst (squareWaveCallback_fp binary64 [7, 7, 7, 7] 6 ?st) ! 0 = 5600"
    using samples [rule_format, of 0] p0 by (simp only: inc half n) (simp add: amp')
  have s1: "fst (squareWaveCallback_fp binary64 [7, 7, 7, 7] 6 ?st) ! 1 = 5600"
    using samples [rule_format, of 1] p1 by (simp only: inc half n) (simp add: amp')
  have s2: "fst (squareWaveCallback_fp binary64 [7, 7, 7, 7] 6 ?st) ! 2 = - 5600"
    using samples [rule_format, of 2] p2 by (simp only: inc half n) (simp add: amp')
  from main have "\<forall>i. nat (sint (numSamples_of 6)) \<le> i \<and> i < length [7, 7, 7, 7 :: 16 word] \<longrightarrow>
      fst (squareWaveCallback_fp binary64 [7, 7, 7, 7] 6 ?st) ! i = [7, 7, 7, 7] ! i"
    by blast
  then have s3: "fst (squareWaveCallback_fp binary64 [7, 7, 7, 7] 6 ?st) ! 3 = 7"
    by (simp add: n)
  show ?thesis
    using h v amp s0 s1 s2 s3 by (simp add: n)
qed

section \<open>Determinism\<close>

lemma getControllerState_frame_loop:
  "fold getControllerState_stmt [0..<n] fr =
     fr\<lparr>frame_state :=
          fold (getControllerState_body (frame_keyState fr) (frame_keyMap fr)) [0..<n]
            (frame_state fr)\<rparr>"
  by (induction n) (simp_all add: getControllerState_stmt_def getControllerState_body_def)

lemma getControllerState_call_eq:
  "getControllerState_call keyState keyMap =
     \<lparr>frame_keyState = keyState, frame_keyMap = keyMap,
      frame_state = getControllerState keyState keyMap\<rparr>"
  by (simp add: getControllerState_call_def getControllerState_frame_loop
      getControllerState_def)

lemma getControllerState_first_entries:
  assumes "NUM_KEYS \<le> length keyMap"
    and "take NUM_KEYS keyState = take NUM_KEYS keyState'"
    and "map value (take NUM_KEYS keyMap) = map value (take NUM_KEYS keyMap')"
  shows "getControllerState keyState keyMap = getControllerState keyState' keyMap'"
proof -
  have ks: "keyState ! i = keyState' ! i" if "i < NUM_KEYS" for i
  proof -
    have "keyState ! i = take NUM_KEYS keyState ! i"
      using that by simp
    also have "\<dots> = take NUM_KEYS keyState' ! i"
      by (simp only: assms(2))
    also have "\<dots> = keyState' ! i"
      using that by simp
    finally show ?thesis .
  qed
  have "length (take NUM_KEYS keyMap) = length (take NUM_KEYS keyMap')"
    using assms(3) by (rule map_eq_imp_length_eq)
  then have len': "NUM_KEYS \<le> length keyMap'"
    using assms(1) by simp
  have km: "value (keyMap ! i) = value (keyMap' ! i)" if "i < NUM_KEYS" for i
  proof -
    have "value (keyMap ! i) = map value (take NUM_KEYS keyMap) ! i"
      using that assms(1) by simp
    also have "\<dots> = map value (take NUM_KEYS keyMap') ! i"
      by (simp only: assms(3))
    also have "\<dots> = value (keyMap' ! i)"
      using that len' by simp
    finally show ?thesis .
  qed
  show ?thesis
    by (rule bit_eqI) (simp add: getControllerState_bit ks km cong: conj_cong)
qed

lemma squareWaveCallback_fp_result:
  assumes "nat (sint (numSamples_of len)) \<le> length stream"
  shows "squareWaveCallback_fp ar stream len st =
    (map (\<lambda>i. sample_value_fp ar
                  ((phase_step_fp ar (phaseInc_fp ar (semitoneStep st)) ^^ i) (phase st))
                  (scaledAmplitude (volumeLevel st)))
         [0..<nat (sint (numSamples_of len))]
       @ drop (nat (sint (numSamples_of len))) stream,
     st\<lparr>phase := (phase_step_fp ar (phaseInc_fp ar (semitoneStep st))
                      ^^ nat (sint (numSamples_of len))) (phase st),
        waveTimer := waveTimer st + numSamples_of len,
        semitoneStep := c_mod (semitoneStep st + 1) MAX_SEMITONE_STEPS,
        volumeLevel := c_mod (volumeLevel st + 1) MAX_SEMITONE_STEPS\<rparr>)"
  using squareWaveCallback_fp_samples [OF assms, of ar st]
    squareWaveCallback_fp_state [of ar stream len st]
  by (simp add: prod_eq_iff)

text \<open>
  C9.  \<^verbatim>\<open>getControllerState\<close> leaves both arrays it is given as they were and returns
  the register of the encoder, so that calling it again on what it left gives the same
  frame; the register is a function of the first \<open>NUM_KEYS\<close> key states and flag values
  alone, whatever the keys and labels of the bindings are.  In every arithmetic of
  \<^verbatim>\<open>double\<close>, \<^verbatim>\<open>squareWaveCallback\<close> on a stream that holds the requested samples
  returns the samples given by the phase, the pitch step and the volume step at entry,
  followed by the untouched rest of the stream, and the static variables advanced from
  those at entry.  Hence two runs that agree on phase, pitch step, volume step and byte
  count write the same samples, whatever the streams held before and whatever
  \<^verbatim>\<open>waveTimer\<close> is, and end with the same phase, pitch step and volume step; two runs
  from equal static variables on streams that agree beyond the requested samples give
  equal buffers and equal static variables.
\<close>

theorem encoder_and_synthesizer_deterministic:
  "frame_keyState (getControllerState_call keyState keyMap) = keyState
   \<and> frame_keyMap (getControllerState_call keyState keyMap) = keyMap
   \<and> frame_state (getControllerState_call keyState keyMap) =
       getControllerState keyState keyMap
   \<and> getControllerState_call
        (frame_keyState (getControllerState_call keyState keyMap))
        (frame_keyMap (getControllerState_call keyState keyMap)) =
       getControllerState_call keyState keyMap
   \<and> (NUM_KEYS \<le> length keyMap
      \<and> take NUM_KEYS keyState = take NUM_KEYS keyState'
      \<and> map value (take NUM_KEYS keyMap) = map value (take NUM_KEYS keyMap') \<longrightarrow>
      frame_state (getControllerState_call keyState keyMap) =
        frame_state (getControllerState_call keyState' keyMap'))
   \<and> (nat (sint (numSamples_of len)) \<le> length stream \<longrightarrow>
      squareWaveCallback_fp ar stream len st =
        (map (\<lambda>i. if fp_lt ar
                        ((phase_step_fp ar (phaseInc_fp ar (semitoneStep st)) ^^ i) (phase st))
                        (fp_lit ar (1 / 2))
                   then scaledAmplitude (volumeLevel st)
                   else - scaledAmplitude (volumeLevel st))
             [0..<nat (sint (numSamples_of len))]
           @ drop (nat (sint (numSamples_of len))) stream,
         st\<lparr>phase := (phase_step_fp ar (phaseInc_fp ar (semitoneStep st))
                          ^^ nat (sint (numSamples_of len))) (phase st),
            waveTimer := waveTimer st + numSamples_of len,
            semitoneStep := c_mod (semitoneStep st + 1) MAX_SEMITONE_STEPS,
            volumeLevel := c_mod (volumeLevel st + 1) MAX_SEMITONE_STEPS\<rparr>))
   \<and> (phase st = phase st' \<and> semitoneStep st = semitoneStep st'
      \<and> volumeLevel st = volumeLevel st'
      \<and> nat (sint (numSamples_of len)) \<le> length stream
      \<and> nat (sint (numSamples_of len)) \<le> length stream' \<longrightarrow>
      take (nat (sint (numSamples_of len))) (fst (squareWaveCallback_fp ar stream len st)) =
        take (nat (sint (numSamples_of len))) (fst (squareWaveCallback_fp ar stream' len st'))
      \<and> phase (snd (squareWaveCallback_fp ar stream len st)) =
          phase (snd (squareWaveCallback_fp ar stream' len st'))
      \<and> semitoneStep (snd (squareWaveCallback_fp ar stream len st)) =
          semitoneStep (snd (squareWaveCallback_fp ar stream' len st'))
      \<and> volumeLevel (snd (squareWaveCallback_fp ar stream len st)) =
          volumeLevel (snd (squareWaveCallback_fp ar stream' len st')))
   \<and> (st = st'
      \<and> drop (nat (sint (numSamples_of len))) stream =
          drop (nat (sint (numSamples_of len))) stream'
      \<and> nat (sint (numSamples_of len)) \<le> length stream
      \<and> nat (sint (numSamples_of len)) \<le> length stream' \<longrightarrow>
      squareWaveCallback_fp ar stream len st = squareWaveCallback_fp ar stream' len st')"
proof (intro conjI impI)
  show "frame_keyState (getControllerState_call keyState keyMap) = keyState"
    by (simp add: getControllerState_call_eq)
  show "frame_keyMap (getControllerState_call keyState keyMap) = keyMap"
    by (simp add: getControllerState_call_eq)
  show "frame_state (getControllerState_call keyState keyMap) =
      getControllerState keyState keyMap"
    by (simp add: getControllerState_call_eq)
  show "getControllerState_call
        (frame_keyState (getControllerState_call keyState keyMap))
        (frame_keyMap (getControllerState_call keyState keyMap)) =
       getControllerState_call keyState keyMap"
    by (simp add: getControllerState_call_eq)
next
  assume "NUM_KEYS \<le> length keyMap
      \<and> take NUM_KEYS keyState = take NUM_KEYS keyState'
      \<and> map value (take NUM_KEYS keyMap) = map value (take NUM_KEYS keyMap')"
  then have "getControllerState keyState keyMap = getControllerState keyState' keyMap'"
    by (intro getControllerState_first_entries) blast+
  then show "frame_state (getControllerState_call keyState keyMap) =
        frame_state (getControllerState_call keyState' keyMap')"
    by (simp add: getControllerState_call_eq)
next
  assume "nat (sint (numSamples_of len)) \<le> length stream"
  then show "squareWaveCallback_fp ar stream len st =
        (map (\<lambda>i. if fp_lt ar
                        ((phase_step_fp ar (phaseInc_fp ar (semitoneStep st)) ^^ i) (phase st))
                        (fp_lit ar (1 / 2))
                   then scaledAmplitude (volumeLevel st)
                   else - scaledAmplitude (volumeLevel st))
             [0..<nat (sint (numSamples_of len))]
           @ drop (nat (sint (numSamples_of len))) stream,
         st\<lparr>phase := (phase_step_fp ar (phaseInc_fp ar (semitoneStep st))
                          ^^ nat (sint (numSamples_of len))) (phase st),
            waveTimer := waveTimer st + numSamples_of len,
            semitoneStep := c_mod (semitoneStep st + 1) MAX_SEMITONE_STEPS,
            volumeLevel := c_mod (volumeLevel st + 1) MAX_SEMITONE_STEPS\<rparr>)"
    by (simp add: squareWaveCallback_fp_result sample_value_fp_alt)
next
  assume h: "phase st = phase st' \<and> semitoneStep st = semitoneStep st'
      \<and> volumeLevel st = volumeLevel st'
      \<and> nat (sint (numSamples_of len)) \<le> length stream
      \<and> nat (sint (numSamples_of len)) \<le> length stream'"
  then have a: "nat (sint (numSamples_of len)) \<le> length stream"
    and b: "nat (sint (numSamples_of len)) \<le> length stream'"
    by simp_all
  show "take (nat (sint (numSamples_of len))) (fst (squareWaveCallback_fp ar stream len st)) =
        take (nat (sint (numSamples_of len))) (fst (squareWaveCallback_fp ar stream' len st'))"
    unfolding squareWaveCallback_fp_result [OF a] squareWaveCallback_fp_result [OF b]
    using h by simp
  show "phase (snd (squareWaveCallback_fp ar stream len st)) =
          phase (snd (squareWaveCallback_fp ar stream' len st'))"
    using h by (simp add: squareWaveCallback_fp_state)
  show "semitoneStep (snd (squareWaveCallback_fp ar stream len st)) =
          semitoneStep (snd (squareWaveCallback_fp ar stream' len st'))"
    using h by (simp add: squareWaveCallback_fp_state)
  show "volumeLevel (snd (squareWaveCallback_fp ar stream len st)) =
          volumeLevel (snd (squareWaveCallback_fp ar stream' len st'))"
    using h by (simp add: squareWaveCallback_fp_state)
next
  assume h: "st = st'
      \<and> drop (nat (sint (numSamples_of len))) stream =
          drop (nat (sint (numSamples_of len))) stream'
      \<and> nat (sint (numSamples_of len)) \<le> length stream
      \<and> nat (sint (numSamples_of len)) \<le> length stream'"
  then have a: "nat (sint (numSamples_of len)) \<le> length stream"
    and b: "nat (sint (numSamples_of len)) \<le> length stream'"
    by simp_all
  show "squareWaveCallback_fp ar stream len st = squareWaveCallback_fp ar stream' len st'"
    unfolding squareWaveCallback_fp_result [OF a] squareWaveCallback_fp_result [OF b]
    using h by simp
qed

text \<open>
  The witness compares two binding tables that differ in keys and labels only, and, in
  binary64, two runs at volume step 3 that differ in the previous content of the stream
  and in \<^verbatim>\<open>waveTimer\<close>: both write the samples +5600, +5600, -5600.
\<close>

theorem encoder_and_synthesizer_deterministic_witness:
  "NUM_KEYS \<le> length controller1Keys
   \<and> take NUM_KEYS [True, False, False, False, True, False, False, False] =
       take NUM_KEYS [True, False, False, False, True, False, False, False, True]
   \<and> map value (take NUM_KEYS controller1Keys) = map value (take NUM_KEYS controller2Keys)
   \<and> frame_state (getControllerState_call
        [True, False, False, False, True, False, False, False] controller1Keys) = 17
   \<and> frame_state (getControllerState_call
        [True, False, False, False, True, False, False, False, True] controller2Keys) = 17
   \<and> frame_keyState (getControllerState_call
        [True, False, False, False, True, False, False, False] controller1Keys) =
       [True, False, False, False, True, False, False, False]
   \<and> nat (sint (numSamples_of 6)) \<le> length [1, 2, 3, 9 :: 16 word]
   \<and> nat (sint (numSamples_of 6)) \<le> length [4, 5, 6, 8 :: 16 word]
   \<and> fst (squareWaveCallback_fp binary64 [1, 2, 3, 9] 6
        \<lparr>phase = Finite (31 / 64), waveTimer = 0, volumeLevel = 3, semitoneStep = 0\<rparr>) =
       [5600, 5600, - 5600, 9]
   \<and> take (nat (sint (numSamples_of 6)))
        (fst (squareWaveCallback_fp binary64 [4, 5, 6, 8] 6
          \<lparr>phase = Finite (31 / 64), waveTimer = 9, volumeLevel = 3, semitoneStep = 0\<rparr>)) =
       [5600, 5600, - 5600]
   \<and> phase (snd (squareWaveCallback_fp binary64 [4, 5, 6, 8] 6
          \<lparr>phase = Finite (31 / 64), waveTimer = 9, volumeLevel = 3, semitoneStep = 0\<rparr>)) =
       phase (snd (squareWaveCallback_fp binary64 [1, 2, 3, 9] 6
          \<lparr>phase = Finite (31 / 64), waveTimer = 0, volumeLevel = 3, semitoneStep = 0\<rparr>))
   \<and> drop (nat (sint (numSamples_of 6))) [1, 2, 3, 9 :: 16 word] =
       drop (nat (sint (numSamples_of 6))) [7, 7, 7, 9]
   \<and> squareWaveCallback_fp binary64 [1, 2, 3, 9] 6
        \<lparr>phase = Finite (31 / 64), waveTimer = 0, volumeLevel = 3, semitoneStep = 0\<rparr> =
       squareWaveCallback_fp binary64 [7, 7, 7, 9] 6
        \<lparr>phase = Finite (31 / 64), waveTimer = 0, volumeLevel = 3, semitoneStep = 0\<rparr>"
proof -
  let ?ks = "[True, False, False, False, True, False, False, False]"
  let ?st = "\<lparr>phase = Finite (31 / 64), waveTimer = 0, volumeLevel = 3, semitoneStep = 0\<rparr>
    :: double synth_state"
  let ?st' = "\<lparr>phase = Finite (31 / 64), waveTimer = 9, volumeLevel = 3, semitoneStep = 0\<rparr>
    :: double synth_state"
  let ?inc = "Finite (2875767925323201 / 288230376151711744)"
  have h1: "NUM_KEYS \<le> length controller1Keys
      \<and> take NUM_KEYS ?ks = take NUM_KEYS (?ks @ [True])
      \<and> map value (take NUM_KEYS controller1Keys) = map value (take NUM_KEYS controller2Keys)"
    by (simp add: NUM_KEYS_def controller1Keys_def controller2Keys_def)
  have n: "nat (sint (numSamples_of 6)) = 3"
    by (simp add: numSamples_of_def)
  have l1: "nat (sint (numSamples_of 6)) \<le> length [1, 2, 3, 9 :: 16 word]"
    and l2: "nat (sint (numSamples_of 6)) \<le> length [4, 5, 6, 8 :: 16 word]"
    and l3: "nat (sint (numSamples_of 6)) \<le> length [7, 7, 7, 9 :: 16 word]"
    by (simp_all add: n)
  have h2: "phase ?st = phase ?st' \<and> semitoneStep ?st = semitoneStep ?st'
      \<and> volumeLevel ?st = volumeLevel ?st'
      \<and> nat (sint (numSamples_of 6)) \<le> length [1, 2, 3, 9 :: 16 word]
      \<and> nat (sint (numSamples_of 6)) \<le> length [4, 5, 6, 8 :: 16 word]"
    using l1 l2 by simp
  have d: "drop (nat (sint (numSamples_of 6))) [1, 2, 3, 9 :: 16 word] =
      drop (nat (sint (numSamples_of 6))) [7, 7, 7, 9]"
    by (simp add: n)
  have h3: "?st = ?st \<and> drop (nat (sint (numSamples_of 6))) [1, 2, 3, 9 :: 16 word] =
      drop (nat (sint (numSamples_of 6))) [7, 7, 7, 9]
      \<and> nat (sint (numSamples_of 6)) \<le> length [1, 2, 3, 9 :: 16 word]
      \<and> nat (sint (numSamples_of 6)) \<le> length [7, 7, 7, 9 :: 16 word]"
    using d l1 l3 by simp
  note main = encoder_and_synthesizer_deterministic
    [where keyMap = controller1Keys and keyMap' = controller2Keys
       and keyState = ?ks and keyState' = "?ks @ [True]"
       and ar = binary64 and st = ?st and st' = ?st'
       and len = 6 and stream = "[1, 2, 3, 9]" and stream' = "[4, 5, 6, 8]"]
  note same = encoder_and_synthesizer_deterministic
    [where ar = binary64 and st = ?st and st' = ?st
       and len = 6 and stream = "[1, 2, 3, 9]" and stream' = "[7, 7, 7, 9]"]
  have reg: "getControllerState ?ks controller1Keys = 17"
    by code_simp
  have r1: "frame_state (getControllerState_call ?ks controller1Keys) = 17"
    using main reg by simp
  have r2: "frame_state (getControllerState_call (?ks @ [True]) controller2Keys) = 17"
    using main h1 r1 by metis
  have r3: "frame_keyState (getControllerState_call ?ks controller1Keys) = ?ks"
    using main by blast
  have inc: "phaseInc_fp binary64 (semitoneStep ?st) = ?inc"
    by (simp add: phaseInc_fp_binary64_0)
  have half: "fp_lit binary64 (1 / 2) = Finite (1 / 2)"
    by (simp add: binary64_def round_double_literals)
  have amp: "scaledAmplitude (volumeLevel ?st) = 5600"
  proof -
    have "sint (scaledAmplitude 3) = 5600"
      by (simp add: scaledAmplitude_in_range)
    then have "word_of_int (sint (scaledAmplitude 3)) = (word_of_int 5600 :: 16 word)"
      by (simp only:)
    then show ?thesis
      by simp
  qed
  have p0: "fp_lt binary64 ((phase_step_fp binary64 ?inc ^^ 0) (phase ?st)) (Finite (1 / 2))"
    by (simp add: binary64_def)
  have p1: "fp_lt binary64 ((phase_step_fp binary64 ?inc ^^ 1) (phase ?st)) (Finite (1 / 2))"
    by (simp add: binary64_three_phases) (simp add: binary64_def)
  have p2: "\<not> fp_lt binary64 ((phase_step_fp binary64 ?inc ^^ 2) (phase ?st)) (Finite (1 / 2))"
    by (simp add: numeral_2_eq_2 binary64_three_phases) (simp add: binary64_def)
  have upt3: "[0..<3] = [0, 1, 2]"
    by (simp add: upt_rec)
  from main l1 have "squareWaveCallback_fp binary64 [1, 2, 3, 9] 6 ?st =
        (map (\<lambda>i. if fp_lt binary64
                        ((phase_step_fp binary64 (phaseInc_fp binary64 (semitoneStep ?st)) ^^ i)
                           (phase ?st))
                        (fp_lit binary64 (1 / 2))
                   then scaledAmplitude (volumeLevel ?st)
                   else - scaledAmplitude (volumeLevel ?st))
             [0..<nat (sint (numSamples_of 6))]
           @ drop (nat (sint (numSamples_of 6))) [1, 2, 3, 9],
         ?st\<lparr>phase := (phase_step_fp binary64 (phaseInc_fp binary64 (semitoneStep ?st))
                          ^^ nat (sint (numSamples_of 6))) (phase ?st),
            waveTimer := waveTimer ?st + numSamples_of 6,
            semitoneStep := c_mod (semitoneStep ?st + 1) MAX_SEMITONE_STEPS,
            volumeLevel := c_mod (volumeLevel ?st + 1) MAX_SEMITONE_STEPS\<rparr>)"
    by blast
  then have "fst (squareWaveCallback_fp binary64 [1, 2, 3, 9] 6 ?st) =
      map (\<lambda>i. if fp_lt binary64 ((phase_step_fp binary64 ?inc ^^ i) (phase ?st))
                     (Finite (1 / 2))
                then 5600 else - 5600) [0, 1, 2] @ [9]"
    by (simp only: fst_conv inc half amp n upt3) simp
  then have b1: "fst (squareWaveCallback_fp binary64 [1, 2, 3, 9] 6 ?st) =
      [5600, 5600, - 5600, 9]"
    using p0 p1 p2 by simp
  from main h2 have agree:
    "take (nat (sint (numSamples_of 6))) (fst (squareWaveCallback_fp binary64 [1, 2, 3, 9] 6 ?st)) =
     take (nat (sint (numSamples_of 6))) (fst (squareWaveCallback_fp binary64 [4, 5, 6, 8] 6 ?st'))
     \<and> phase (snd (squareWaveCallback_fp binary64 [1, 2, 3, 9] 6 ?st)) =
        phase (snd (squareWaveCallback_fp binary64 [4, 5, 6, 8] 6 ?st'))"
    by blast
  then have b2: "take (nat (sint (numSamples_of 6)))
      (fst (squareWaveCallback_fp binary64 [4, 5, 6, 8] 6 ?st')) = [5600, 5600, - 5600]"
    using b1 by (simp add: n)
  have b3: "phase (snd (squareWaveCallback_fp binary64 [4, 5, 6, 8] 6 ?st')) =
      phase (snd (squareWaveCallback_fp binary64 [1, 2, 3, 9] 6 ?st))"
    using agree by simp
  have b4: "squareWaveCallback_fp binary64 [1, 2, 3, 9] 6 ?st =
      squareWaveCallback_fp binary64 [7, 7, 7, 9] 6 ?st"
    using same h3 by blast
  show ?thesis
    using h1 r1 r2 r3 l1 l2 b1 b2 b3 d b4 by (intro conjI) simp_all
qed

end
